theory Spec2Isabelle
  imports
    Complex_Main
    "HOL-Library.AList"
    "HOL-Library.Char_ord"
    "HOL-Library.List_Lexorder"
    "HOL-Library.Product_Lexorder"
    "HOL-Library.Multiset"
begin

section \<open>Data model\<close>

text \<open>
  The block handed to the engine by \<^verbatim>\<open>rpcUtil.block\<close>, as \<^verbatim>\<open>blockchain.js\<close> destructures it:
  \<^verbatim>\<open>{ height, transactions, size, previousblockhash }\<close>, a transaction
  \<^verbatim>\<open>{ txId, txBuffer, ins, outs, vsize }\<close>, an input \<^verbatim>\<open>{ coinbase, prevTxId, vout }\<close> and an
  output \<^verbatim>\<open>{ scId, value, vout }\<close>. Identifiers and buffers are JavaScript strings, heights,
  positions and sizes are non-negative integers, amounts are integers.
\<close>

record txin =
  coinbase :: bool
  prevTxId :: string
  vout :: nat

record txout =
  scId :: string
  "value" :: int
  vout :: nat

record tx =
  txId :: string
  txBuffer :: string
  ins :: "txin list"
  outs :: "txout list"
  vsize :: nat

record block =
  height :: nat
  transactions :: "tx list"
  blockSize :: nat
  previousblockhash :: string

record quartiles =
  q1 :: int
  median :: int
  q3 :: int

datatype error =
    FetchError
  | ReadError
  | WriteError
  | MissingOutput string nat

section \<open>Fee quartiles\<close>

text \<open>
  \<^verbatim>\<open>box\<close> of \<^verbatim>\<open>blockchain.js\<close>: \<^verbatim>\<open>(data.length / 4) | 0\<close> is the integer quotient for every
  array length. The three reads are within the array whenever it is not empty
  (lemma \<open>box_indices\<close>), so no read of the source yields \<^verbatim>\<open>undefined\<close>.
\<close>

definition box :: "int list \<Rightarrow> quartiles" where
  "box data =
     (if length data = 0 then \<lparr>q1 = 0, median = 0, q3 = 0\<rparr>
      else
        let quarter = length data div 4;
            midpoint = length data div 2
        in \<lparr>q1 = data ! quarter, median = data ! midpoint, q3 = data ! (midpoint + quarter)\<rparr>)"

section \<open>The ordered key-value store\<close>

text \<open>
  Modelled from the spec: the store handle \<^verbatim>\<open>db\<close> and the index declarations \<^verbatim>\<open>types.*\<close>
  (\<^verbatim>\<open>./types\<close> and the store wrapper are not among the sources). The spec gives six indices,
  each an ordered key-value mapping whose key fields, in their declared order, define the
  iteration order:
  Tip (singleton) \<open>\<mapsto>\<close> (blockId, height); TxIndex txId \<open>\<mapsto>\<close> height;
  TxoIndex (txId, vout) \<open>\<mapsto>\<close> value; SpentIndex (prevTxId, prevVout) \<open>\<mapsto>\<close> (txId, vin);
  ScriptIndex (scId, height, txId, vout) with an empty value; FeeIndex height \<open>\<mapsto>\<close> (fees, size).
  A composite key is a tuple under the lexicographic order, a string key is ordered as its
  bytes are.
\<close>

record db =
  tip :: "(string \<times> nat) option"
  txIndex :: "string \<rightharpoonup> nat"
  txoIndex :: "string \<times> nat \<rightharpoonup> int"
  spentIndex :: "string \<times> nat \<rightharpoonup> string \<times> nat"
  scIndex :: "(string \<times> nat \<times> string \<times> nat) set"
  feeIndex :: "nat \<rightharpoonup> quartiles \<times> nat"

text \<open>
  Modelled from the spec: an atomic batch is the list of its \<^verbatim>\<open>put\<close> and \<^verbatim>\<open>del\<close> calls, in
  call order, one constructor for each index the sources write or delete.
\<close>

datatype op =
    PutSpent "string \<times> nat" "string \<times> nat"
  | PutSc "string \<times> nat \<times> string \<times> nat"
  | PutTxo "string \<times> nat" int
  | PutTx string nat
  | PutTip "string \<times> nat"
  | PutFee nat "quartiles \<times> nat"
  | DelSpent "string \<times> nat"
  | DelSc "string \<times> nat \<times> string \<times> nat"
  | DelTxo "string \<times> nat"
  | DelTx string

fun apply_op :: "db \<Rightarrow> op \<Rightarrow> db" where
  "apply_op d (PutSpent k v) = d\<lparr>spentIndex := (spentIndex d)(k \<mapsto> v)\<rparr>"
| "apply_op d (PutSc k) = d\<lparr>scIndex := insert k (scIndex d)\<rparr>"
| "apply_op d (PutTxo k v) = d\<lparr>txoIndex := (txoIndex d)(k \<mapsto> v)\<rparr>"
| "apply_op d (PutTx k v) = d\<lparr>txIndex := (txIndex d)(k \<mapsto> v)\<rparr>"
| "apply_op d (PutTip v) = d\<lparr>tip := Some v\<rparr>"
| "apply_op d (PutFee k v) = d\<lparr>feeIndex := (feeIndex d)(k \<mapsto> v)\<rparr>"
| "apply_op d (DelSpent k) = d\<lparr>spentIndex := (spentIndex d)(k := None)\<rparr>"
| "apply_op d (DelSc k) = d\<lparr>scIndex := scIndex d - {k}\<rparr>"
| "apply_op d (DelTxo k) = d\<lparr>txoIndex := (txoIndex d)(k := None)\<rparr>"
| "apply_op d (DelTx k) = d\<lparr>txIndex := (txIndex d)(k := None)\<rparr>"

definition commit :: "db \<Rightarrow> op list \<Rightarrow> db" where
  "commit d batch = foldl apply_op d batch"

text \<open>
  Modelled from the spec: the collaborators of one call. \<^verbatim>\<open>rpcUtil.block\<close> and
  \<^verbatim>\<open>rpcUtil.header\<close> (\<^verbatim>\<open>./rpc\<close> is not among the sources) answer with an error or a value; a
  point read of the store can fail with an error (\<open>getErr\<close>), as can a range scan
  (\<open>iterErr\<close>) and the commit of a batch (\<open>writeErr\<close>); \<open>None\<close> is success.
\<close>

datatype dbkey =
    TipKey
  | TxKey string
  | TxoKey "string \<times> nat"
  | SpentKey "string \<times> nat"

datatype types = Tip | TxIndex | TxoIndex | SpentIndex | ScIndex | FeeIndex

record env =
  rpcBlock :: "string \<Rightarrow> error + block"
  rpcHeader :: "string \<Rightarrow> error + string"
  getErr :: "dbkey \<Rightarrow> error option"
  iterErr :: "types \<Rightarrow> error option"
  writeErr :: "op list \<Rightarrow> error option"

text \<open>\<^verbatim>\<open>atomic.write(callback)\<close>: all of the batch or nothing of it.\<close>

definition atomic_write :: "env \<Rightarrow> db \<Rightarrow> op list \<Rightarrow> error option \<times> db" where
  "atomic_write e d batch =
     (case writeErr e batch of
        Some err \<Rightarrow> (Some err, d)
      | None \<Rightarrow> (None, commit d batch))"

text \<open>\<^verbatim>\<open>db.get(type, key, callback)\<close>: an error, or the row, or nothing when the key is absent.\<close>

definition get_tip :: "env \<Rightarrow> db \<Rightarrow> error + (string \<times> nat) option" where
  "get_tip e d = (case getErr e TipKey of Some err \<Rightarrow> Inl err | None \<Rightarrow> Inr (tip d))"

definition get_txoIndex :: "env \<Rightarrow> db \<Rightarrow> string \<times> nat \<Rightarrow> error + int option" where
  "get_txoIndex e d k =
     (case getErr e (TxoKey k) of Some err \<Rightarrow> Inl err | None \<Rightarrow> Inr (txoIndex d k))"

definition get_spentIndex :: "env \<Rightarrow> db \<Rightarrow> string \<times> nat \<Rightarrow> error + (string \<times> nat) option" where
  "get_spentIndex e d k =
     (case getErr e (SpentKey k) of Some err \<Rightarrow> Inl err | None \<Rightarrow> Inr (spentIndex d k))"

text \<open>
  \<^verbatim>\<open>db.iterator(type, { gte, lt }, forEach, callback)\<close>: the keys of the index within the
  bounds, in ascending key order.
\<close>

definition iterator_scIndex ::
  "db \<Rightarrow> string \<times> nat \<times> string \<times> nat \<Rightarrow> string \<times> nat \<times> string \<times> nat
     \<Rightarrow> (string \<times> nat \<times> string \<times> nat) list" where
  "iterator_scIndex d gte lt = sorted_list_of_set {k \<in> scIndex d. gte \<le> k \<and> k < lt}"

definition iterator_feeIndex :: "db \<Rightarrow> int \<Rightarrow> (nat \<times> quartiles \<times> nat) list" where
  "iterator_feeIndex d gte =
     map (\<lambda>h. (h, the (feeIndex d h)))
       (sorted_list_of_set {h \<in> dom (feeIndex d). gte \<le> int h})"

text \<open>
  \<^verbatim>\<open>parallel(tasks, callback)\<close> of \<^verbatim>\<open>run-parallel\<close>: the results of all tasks, or an error as
  soon as one task fails. The tasks run here in list order, so the error surfaced is the one
  of the first failing task in that order.
\<close>

fun parallel :: "(error + 'a) list \<Rightarrow> error + 'a list" where
  "parallel [] = Inr []"
| "parallel (Inl err # tasks) = Inl err"
| "parallel (Inr r # tasks) =
     (case parallel tasks of Inl err \<Rightarrow> Inl err | Inr rs \<Rightarrow> Inr (r # rs))"

section \<open>Keys and notifications\<close>

text \<open>
  The template literal \<^verbatim>\<open>`${txId}:${vout}`\<close>: the identifier, a colon and the decimal digits of
  the output position.
\<close>

definition digit :: "nat \<Rightarrow> char" where
  "digit n = ''0123456789'' ! n"

fun decimal :: "nat \<Rightarrow> string" where
  "decimal n = (if n < 10 then [digit n] else decimal (n div 10) @ [digit (n mod 10)])"

declare decimal.simps [simp del]

definition txoKey :: "string \<Rightarrow> nat \<Rightarrow> string" where
  "txoKey t v = t @ '':'' @ decimal v"

definition ZERO64 :: string where
  "ZERO64 = ''0000000000000000000000000000000000000000000000000000000000000000''"

text \<open>
  \<^verbatim>\<open>emitter.emit(name, ...)\<close>: one constructor for each of the four notifications, with the
  payload in the order of the call.
\<close>

datatype event =
    Spent string string
  | Script string string string
  | Transaction string string string
  | Block string string nat

section \<open>Connect\<close>

text \<open>
  The batch built by \<^verbatim>\<open>connect\<close>, transaction by transaction: the inputs with their position
  \<^verbatim>\<open>vin\<close> (a coinbase input writes nothing), the outputs with the position \<^verbatim>\<open>vout\<close> they
  carry, the transaction itself, and at the end the tip. \<open>h\<close> is the \<^verbatim>\<open>height\<close> field of the
  fetched block.
\<close>

definition connect_ins :: "string \<Rightarrow> txin list \<Rightarrow> op list" where
  "connect_ins t is =
     concat (map (\<lambda>(vin, input).
         if coinbase input then []
         else [PutSpent (prevTxId input, txin.vout input) (t, vin)])
       (enumerate 0 is))"

definition connect_outs :: "nat \<Rightarrow> string \<Rightarrow> txout list \<Rightarrow> op list" where
  "connect_outs h t os =
     concat (map (\<lambda>out.
         [PutSc (scId out, h, t, txout.vout out), PutTxo (t, txout.vout out) (value out)])
       os)"

definition connect_tx :: "nat \<Rightarrow> tx \<Rightarrow> op list" where
  "connect_tx h t =
     connect_ins (txId t) (ins t) @ connect_outs h (txId t) (outs t) @ [PutTx (txId t) h]"

definition connect_batch :: "string \<Rightarrow> block \<Rightarrow> op list" where
  "connect_batch blockId b =
     concat (map (connect_tx (height b)) (transactions b)) @ [PutTip (blockId, height b)]"

text \<open>
  The notifications \<^verbatim>\<open>connect\<close> schedules with \<^verbatim>\<open>setTimeout\<close>, in the order scheduled. The
  \<^verbatim>\<open>block\<close> notification needs the header; a failed header fetch drops it.
\<close>

definition events_tx :: "string \<Rightarrow> tx \<Rightarrow> event list" where
  "events_tx blockId t =
     map (\<lambda>input. Spent (txoKey (prevTxId input) (txin.vout input)) (txId t))
       (filter (\<lambda>input. \<not> coinbase input) (ins t))
     @ map (\<lambda>out. Script (scId out) (txId t) (txBuffer t)) (outs t)
     @ [Transaction (txId t) (txBuffer t) blockId]"

definition events_block :: "env \<Rightarrow> string \<Rightarrow> block \<Rightarrow> event list" where
  "events_block e blockId b =
     (case rpcHeader e blockId of
        Inl err \<Rightarrow> []
      | Inr blockBuffer \<Rightarrow> [Block blockId blockBuffer (height b)])"

definition connect_events :: "env \<Rightarrow> string \<Rightarrow> block \<Rightarrow> event list" where
  "connect_events e blockId b =
     concat (map (events_tx blockId) (transactions b)) @ events_block e blockId b"

section \<open>Second phase: fee statistics\<close>

text \<open>
  \<^verbatim>\<open>connect2ndOrder\<close>. For one transaction, \<open>subTasks\<close> holds one lookup for each input that
  is not a coinbase input, \<open>outAccum\<close> is the sum of the output values, and \<open>task\<close> is the
  function pushed on \<^verbatim>\<open>tasks\<close>: a transaction with a coinbase input pushes the rate 0 and
  does not run its lookups. \<^verbatim>\<open>Math.floor(fee / vsize)\<close> is the floor quotient \<open>div\<close> of the
  integers; the virtual size of a transaction is positive.
\<close>

definition subTask :: "env \<Rightarrow> db \<Rightarrow> txin \<Rightarrow> error + int" where
  "subTask e d input =
     (case get_txoIndex e d (prevTxId input, txin.vout input) of
        Inl err \<Rightarrow> Inl err
      | Inr None \<Rightarrow> Inl (MissingOutput (prevTxId input) (txin.vout input))
      | Inr (Some v) \<Rightarrow> Inr v)"

definition subTasks :: "env \<Rightarrow> db \<Rightarrow> txin list \<Rightarrow> (error + int) list" where
  "subTasks e d is = map (subTask e d) (filter (\<lambda>input. \<not> coinbase input) is)"

definition task :: "env \<Rightarrow> db \<Rightarrow> tx \<Rightarrow> error + int" where
  "task e d t =
     (let outAccum = sum_list (map value (outs t))
      in if (\<exists>input \<in> set (ins t). coinbase input) then Inr 0
         else
           (case parallel (subTasks e d (ins t)) of
              Inl err \<Rightarrow> Inl err
            | Inr vs \<Rightarrow>
                let inAccum = sum_list vs;
                    fee = inAccum - outAccum;
                    feeRate = fee div int (vsize t)
                in Inr feeRate))"

definition connect2ndOrder :: "env \<Rightarrow> db \<Rightarrow> string \<Rightarrow> block \<Rightarrow> error option \<times> db" where
  "connect2ndOrder e d blockId b =
     (case parallel (map (task e d) (transactions b)) of
        Inl err \<Rightarrow> (Some err, d)
      | Inr feeRates \<Rightarrow>
          atomic_write e d [PutFee (height b) (box (sort feeRates), blockSize b)])"

text \<open>
  \<^verbatim>\<open>connect(blockId, height, callback)\<close>: the answer given to the callback (\<open>None\<close> is
  success), the store afterwards and the notifications emitted. The body binds
  \<^verbatim>\<open>height\<close> anew from the fetched block, so the parameter (\<open>height_arg\<close>) is not read.
\<close>

definition connect :: "env \<Rightarrow> db \<Rightarrow> string \<Rightarrow> nat \<Rightarrow> error option \<times> db \<times> event list" where
  "connect e d blockId height_arg =
     (case rpcBlock e blockId of
        Inl err \<Rightarrow> (Some err, d, [])
      | Inr b \<Rightarrow>
          (case atomic_write e d (connect_batch blockId b) of
             (Some err, d') \<Rightarrow> (Some err, d', connect_events e blockId b)
           | (None, d') \<Rightarrow>
               (case connect2ndOrder e d' blockId b of
                  (r, d'') \<Rightarrow> (r, d'', connect_events e blockId b))))"

section \<open>Disconnect\<close>

text \<open>
  The batch built by \<^verbatim>\<open>disconnect\<close>. The outputs are deleted under their position in the
  array (the second argument of the \<^verbatim>\<open>forEach\<close> callback), and the tip is written with the
  \<^verbatim>\<open>height\<close> field of the block being disconnected.
\<close>

definition disconnect_ins :: "txin list \<Rightarrow> op list" where
  "disconnect_ins is =
     concat (map (\<lambda>input.
         if coinbase input then [] else [DelSpent (prevTxId input, txin.vout input)])
       is)"

definition disconnect_outs :: "nat \<Rightarrow> string \<Rightarrow> txout list \<Rightarrow> op list" where
  "disconnect_outs h t os =
     concat (map (\<lambda>(vout, out). [DelSc (scId out, h, t, vout), DelTxo (t, vout)])
       (enumerate 0 os))"

definition disconnect_tx :: "nat \<Rightarrow> tx \<Rightarrow> op list" where
  "disconnect_tx h t =
     disconnect_ins (ins t) @ disconnect_outs h (txId t) (outs t) @ [DelTx (txId t)]"

definition disconnect_batch :: "block \<Rightarrow> op list" where
  "disconnect_batch b =
     concat (map (disconnect_tx (height b)) (transactions b))
     @ [PutTip (previousblockhash b, height b)]"

definition disconnect :: "env \<Rightarrow> db \<Rightarrow> string \<Rightarrow> error option \<times> db \<times> event list" where
  "disconnect e d blockId =
     (case rpcBlock e blockId of
        Inl err \<Rightarrow> (Some err, d, [])
      | Inr b \<Rightarrow>
          (case atomic_write e d (disconnect_batch b) of
             (r, d') \<Rightarrow> (r, d', [])))"

section \<open>Queries\<close>

text \<open>
  \<^verbatim>\<open>fees(n, callback)\<close>. The row read from the tip is dereferenced at once
  (\<^verbatim>\<open>result.height\<close>); when the tip is absent the row is \<^verbatim>\<open>undefined\<close> and the read throws
  inside the store's callback, so \<^verbatim>\<open>callback\<close> is never called: \<open>Uncaught\<close>.
\<close>

datatype 'a completion = Callback "error + 'a" | Uncaught

definition fees :: "env \<Rightarrow> db \<Rightarrow> int \<Rightarrow> (nat \<times> quartiles \<times> nat) list completion" where
  "fees e d n =
     (case get_tip e d of
        Inl err \<Rightarrow> Callback (Inl err)
      | Inr None \<Rightarrow> Uncaught
      | Inr (Some (blockId, maxHeight)) \<Rightarrow>
          (case iterErr e FeeIndex of
             Some err \<Rightarrow> Callback (Inl err)
           | None \<Rightarrow> Callback (Inr (iterator_feeIndex d (int maxHeight - n)))))"

text \<open>
  \<^verbatim>\<open>spentFromTxo(txo, callback)\<close> reads the spent index at the \<^verbatim>\<open>txId\<close> and \<^verbatim>\<open>vout\<close> of the
  object it is given.
\<close>

definition spentFromTxo ::
  "env \<Rightarrow> db \<Rightarrow> string \<times> nat \<times> string \<times> nat \<Rightarrow> error + (string \<times> nat) option" where
  "spentFromTxo e d txo = (case txo of (t, v, sc, h) \<Rightarrow> get_spentIndex e d (t, v))"

text \<open>
  \<^verbatim>\<open>txosByScriptId(scId, height, callback)\<close>. \<^verbatim>\<open>resultMap\<close> is a JavaScript object with string
  keys: an association list in insertion order, where writing a key already present
  replaces its value in place (\<open>AList.update\<close>). A row is
  \<^verbatim>\<open>{ txId, vout, scId, height }\<close> with \<^verbatim>\<open>scId\<close> the argument and the rest from the key scanned.
\<close>

definition txosByScriptId ::
  "env \<Rightarrow> db \<Rightarrow> string \<Rightarrow> nat \<Rightarrow> error + (string \<times> string \<times> nat \<times> string \<times> nat) list" where
  "txosByScriptId e d sc h =
     (case iterErr e ScIndex of
        Some err \<Rightarrow> Inl err
      | None \<Rightarrow>
          Inr (foldl
            (\<lambda>resultMap (sc', h', t, vout). AList.update (txoKey t vout) (t, vout, sc, h') resultMap)
            []
            (iterator_scIndex d (sc, h, ZERO64, 0) (sc, 0xffffffff, ZERO64, 0))))"

text \<open>
  \<^verbatim>\<open>transactionIdsByScriptId(scId, height, callback)\<close>: one spend lookup for each entry of the
  map, then the object \<^verbatim>\<open>txIds\<close> filled first with the spenders found and then with the
  creating transactions.
\<close>

definition transactionIdsByScriptId ::
  "env \<Rightarrow> db \<Rightarrow> string \<Rightarrow> nat \<Rightarrow> error + (string \<times> bool) list" where
  "transactionIdsByScriptId e d sc h =
     (case txosByScriptId e d sc h of
        Inl err \<Rightarrow> Inl err
      | Inr txosMap \<Rightarrow>
          (case parallel (map (\<lambda>(txoKey, txo). spentFromTxo e d txo) txosMap) of
             Inl err \<Rightarrow> Inl err
           | Inr spentMap \<Rightarrow>
               let txIds1 = foldl
                     (\<lambda>txIds spent.
                        case spent of None \<Rightarrow> txIds | Some (t, vin) \<Rightarrow> AList.update t True txIds)
                     [] spentMap;
                   txIds2 = foldl
                     (\<lambda>txIds (x, (t, vout, sc', h')). AList.update t True txIds)
                     txIds1 txosMap
               in Inr txIds2))"

section \<open>Sequences of calls\<close>

text \<open>
  The states reached by sequences of \<open>connect\<close> and \<open>disconnect\<close> calls from the empty store.
  Each call comes with the behaviour of the collaborators during it. Beside the store the
  run keeps two sets of heights, which the program does not hold: \<open>live\<close>, the heights of the
  blocks whose connect succeeded and that no successful disconnect has removed since, and
  \<open>ever\<close>, the heights of all blocks whose connect succeeded.
\<close>

datatype call = Connect string nat | Disconnect string

definition empty_db :: db where
  "empty_db =
     \<lparr>tip = None, txIndex = Map.empty, txoIndex = Map.empty, spentIndex = Map.empty,
      scIndex = {}, feeIndex = Map.empty\<rparr>"

definition step :: "db \<times> nat set \<times> nat set \<Rightarrow> env \<times> call \<Rightarrow> db \<times> nat set \<times> nat set" where
  "step s c =
     (case s of (d, live, ever) \<Rightarrow>
        (case c of
           (e, Connect blockId h) \<Rightarrow>
             (case (connect e d blockId h, rpcBlock e blockId) of
                ((None, d', ev), Inr b) \<Rightarrow> (d', insert (height b) live, insert (height b) ever)
              | ((r, d', ev), fetched) \<Rightarrow> (d', live, ever))
         | (e, Disconnect blockId) \<Rightarrow>
             (case (disconnect e d blockId, rpcBlock e blockId) of
                ((None, d', ev), Inr b) \<Rightarrow> (d', live - {height b}, ever)
              | ((r, d', ev), fetched) \<Rightarrow> (d', live, ever))))"

definition run :: "(env \<times> call) list \<Rightarrow> db \<times> nat set \<times> nat set" where
  "run calls = foldl step (empty_db, {}, {}) calls"

section \<open>Example data\<close>

text \<open>
  A store with no entry, collaborators that never fail on the store side and answer block
  requests by a given function, and three blocks: \<open>B\<close>, of two transactions (a coinbase
  transaction and one spending output 0 of \<open>a0\<close>) at height 100 on top of the block \<open>P\<close> at
  height 99; \<open>U\<close>, of the same two transactions in the other order, at height 101;
  \<open>M\<close>, whose only transaction has a coinbase input and an ordinary input; and \<open>A\<close>, of one
  coinbase transaction, at height 7.
\<close>

definition reliable :: "(string \<Rightarrow> error + block) \<Rightarrow> env" where
  "reliable rpc =
     \<lparr>rpcBlock = rpc, rpcHeader = (\<lambda>blockId. Inl FetchError),
      getErr = (\<lambda>k. None), iterErr = (\<lambda>t. None), writeErr = (\<lambda>batch. None)\<rparr>"

definition ex_coinbase_tx :: tx where
  "ex_coinbase_tx =
     \<lparr>txId = ''c1'', txBuffer = ''01'',
      ins = [\<lparr>coinbase = True, prevTxId = [], vout = 0\<rparr>],
      outs = [\<lparr>scId = ''s1'', value = 50, vout = 0\<rparr>],
      vsize = 100\<rparr>"

definition ex_spend_tx :: tx where
  "ex_spend_tx =
     \<lparr>txId = ''t2'', txBuffer = ''02'',
      ins = [\<lparr>coinbase = False, prevTxId = ''a0'', vout = 0\<rparr>],
      outs = [\<lparr>scId = ''s2'', value = 400, vout = 0\<rparr>, \<lparr>scId = ''s1'', value = 350, vout = 1\<rparr>],
      vsize = 125\<rparr>"

definition ex_block :: block where
  "ex_block =
     \<lparr>height = 100, transactions = [ex_coinbase_tx, ex_spend_tx], blockSize = 500,
      previousblockhash = ''P''\<rparr>"

definition ex_mixed_tx :: tx where
  "ex_mixed_tx =
     \<lparr>txId = ''m1'', txBuffer = ''03'',
      ins = [\<lparr>coinbase = True, prevTxId = [], vout = 0\<rparr>,
             \<lparr>coinbase = False, prevTxId = ''zz'', vout = 7\<rparr>],
      outs = [\<lparr>scId = ''s3'', value = 10, vout = 0\<rparr>],
      vsize = 90\<rparr>"

definition ex_mixed_block :: block where
  "ex_mixed_block =
     \<lparr>height = 100, transactions = [ex_mixed_tx], blockSize = 400, previousblockhash = ''P''\<rparr>"

definition ex_coinbase_block :: block where
  "ex_coinbase_block =
     \<lparr>height = 7, transactions = [ex_coinbase_tx], blockSize = 200, previousblockhash = ''G''\<rparr>"

definition ex_unsorted_block :: block where
  "ex_unsorted_block =
     \<lparr>height = 101, transactions = [ex_spend_tx, ex_coinbase_tx], blockSize = 350,
      previousblockhash = ''B''\<rparr>"

definition ex_rpc :: "string \<Rightarrow> error + block" where
  "ex_rpc blockId =
     (if blockId = ''B'' then Inr ex_block
      else if blockId = ''U'' then Inr ex_unsorted_block
      else if blockId = ''M'' then Inr ex_mixed_block
      else if blockId = ''A'' then Inr ex_coinbase_block
      else Inl FetchError)"

definition ex_db :: db where
  "ex_db =
     \<lparr>tip = Some (''P'', 99),
      txIndex = [''a0'' \<mapsto> 99],
      txoIndex = [(''a0'', 0) \<mapsto> 1000],
      spentIndex = Map.empty,
      scIndex = {(''s1'', 99, ''a0'', 0)},
      feeIndex = [98 \<mapsto> (box [], 200), 99 \<mapsto> (box [4], 300)]\<rparr>"

text \<open>
  A store for the script queries: five ScriptIndex entries, one of them at the height
  \<^verbatim>\<open>0xffffffff\<close>, and two SpentIndex entries.
\<close>

definition ex_sc_db :: db where
  "ex_sc_db =
     empty_db
       \<lparr>spentIndex := [(''c1'', 0) \<mapsto> (''t2'', 3), (''t2'', 1) \<mapsto> (''f9'', 0)],
        scIndex :=
          {(''s1'', 99, ''a0'', 0), (''s1'', 100, ''c1'', 0), (''s2'', 100, ''t2'', 0),
           (''s1'', 100, ''t2'', 1), (''s1'', 0xffffffff, ''e5'', 0)}\<rparr>"

section \<open>Properties\<close>

subsection \<open>Auxiliary facts\<close>

lemma box_indices:
  "0 < n \<Longrightarrow> n div 4 < n \<and> n div 2 < n \<and> n div 2 + n div 4 < (n::nat)"
  by auto

lemma parallel_map_Inr: "parallel (map Inr rs) = Inr rs"
  by (induction rs) auto

lemma parallel_Inr_iff: "parallel ts = Inr rs \<longleftrightarrow> ts = map Inr rs"
proof
  show "parallel ts = Inr rs \<Longrightarrow> ts = map Inr rs"
  proof (induction ts arbitrary: rs)
    case Nil
    then show ?case by simp
  next
    case (Cons a ts)
    then show ?case
      by (cases a) (auto split: sum.splits)
  qed
next
  show "ts = map Inr rs \<Longrightarrow> parallel ts = Inr rs"
    by (simp add: parallel_map_Inr)
qed


lemma parallel_Inl_iff: "(\<exists>err. parallel ts = Inl err) \<longleftrightarrow> (\<exists>err. Inl err \<in> set ts)"
proof (induction ts)
  case Nil
  then show ?case by auto
next
  case (Cons a ts)
  then show ?case
    by (cases a) (auto split: sum.splits)
qed

lemma set_enumerate0: "set (enumerate 0 xs) = {(i, xs ! i) | i. i < length xs}"
  by (auto simp: in_set_enumerate_eq)

lemma feeIndex_apply_op: "\<forall>k v. op \<noteq> PutFee k v \<Longrightarrow> feeIndex (apply_op d op) = feeIndex d"
  by (cases op) auto

lemma feeIndex_commit:
  "\<forall>op \<in> set batch. \<forall>k v. op \<noteq> PutFee k v \<Longrightarrow> feeIndex (commit d batch) = feeIndex d"
  unfolding commit_def
  by (induction batch arbitrary: d) (auto simp: feeIndex_apply_op)

lemma set_disconnect_ins:
  "set (disconnect_ins is) =
     {DelSpent (prevTxId input, txin.vout input) | input. input \<in> set is \<and> \<not> coinbase input}"
  by (auto simp: disconnect_ins_def)

lemma set_disconnect_outs:
  "set (disconnect_outs h t os) =
     {DelSc (scId (os ! i), h, t, i) | i. i < length os} \<union> {DelTxo (t, i) | i. i < length os}"
  by (auto simp: disconnect_outs_def set_enumerate0)

lemma subTasks_resolved:
  assumes "\<forall>input \<in> set is. getErr e (TxoKey (prevTxId input, txin.vout input)) = None
             \<and> txoIndex d (prevTxId input, txin.vout input) \<noteq> None"
  shows "subTasks e d is =
           map Inr (map (\<lambda>input. the (txoIndex d (prevTxId input, txin.vout input)))
             (filter (\<lambda>input. \<not> coinbase input) is))"
  using assms by (auto simp: subTasks_def subTask_def get_txoIndex_def)

lemma commit_snoc: "commit d (xs @ [x]) = apply_op (commit d xs) x"
  by (simp add: commit_def)





lemma concat_map_if_Nil:
  "concat (map (\<lambda>x. if P x then [] else [f x]) xs) = map f (filter (\<lambda>x. \<not> P x) xs)"
  by (induction xs) auto

lemma connect_ins_filter:
  "connect_ins t is =
     map (\<lambda>p. PutSpent (prevTxId (snd p), txin.vout (snd p)) (t, fst p))
       (filter (\<lambda>p. \<not> coinbase (snd p)) (enumerate 0 is))"
  unfolding connect_ins_def case_prod_beta
  by (rule concat_map_if_Nil)

lemma in_set_connect_ins:
  "op \<in> set (connect_ins t is) \<longleftrightarrow>
     (\<exists>vin < length is. \<not> coinbase (is ! vin)
        \<and> op = PutSpent (prevTxId (is ! vin), txin.vout (is ! vin)) (t, vin))"
proof
  assume "op \<in> set (connect_ins t is)"
  then obtain p where p: "p \<in> set (enumerate 0 is)" "\<not> coinbase (snd p)"
    "op = PutSpent (prevTxId (snd p), txin.vout (snd p)) (t, fst p)"
    unfolding connect_ins_filter by auto
  from p(1) have "fst p < length is" "snd p = is ! fst p"
    by (simp_all add: in_set_enumerate_eq)
  with p show "\<exists>vin < length is. \<not> coinbase (is ! vin)
        \<and> op = PutSpent (prevTxId (is ! vin), txin.vout (is ! vin)) (t, vin)"
    by metis
next
  assume "\<exists>vin < length is. \<not> coinbase (is ! vin)
        \<and> op = PutSpent (prevTxId (is ! vin), txin.vout (is ! vin)) (t, vin)"
  then obtain vin where v: "vin < length is" "\<not> coinbase (is ! vin)"
    "op = PutSpent (prevTxId (is ! vin), txin.vout (is ! vin)) (t, vin)"
    by blast
  from v(1) have "(vin, is ! vin) \<in> set (enumerate 0 is)"
    by (simp add: in_set_enumerate_eq)
  with v(2,3) show "op \<in> set (connect_ins t is)"
    unfolding connect_ins_filter by force
qed

lemma in_set_connect_outs:
  "op \<in> set (connect_outs h t os) \<longleftrightarrow>
     (\<exists>out \<in> set os. op = PutSc (scId out, h, t, txout.vout out)
        \<or> op = PutTxo (t, txout.vout out) (value out))"
  by (auto simp: connect_outs_def)

lemma in_set_connect_tx:
  "op \<in> set (connect_tx h t) \<longleftrightarrow>
     op \<in> set (connect_ins (txId t) (ins t)) \<or> op \<in> set (connect_outs h (txId t) (outs t))
     \<or> op = PutTx (txId t) h"
  by (auto simp: connect_tx_def)

lemma in_set_connect_batch:
  "op \<in> set (connect_batch blockId b) \<longleftrightarrow>
     op = PutTip (blockId, height b) \<or> (\<exists>t \<in> set (transactions b). op \<in> set (connect_tx (height b) t))"
  by (auto simp: connect_batch_def)

lemma connect_batch_puts:
  assumes "op \<in> set (connect_batch blockId b)"
  shows "(\<forall>k. op \<noteq> DelTx k) \<and> (\<forall>k. op \<noteq> DelTxo k) \<and> (\<forall>k. op \<noteq> DelSpent k) \<and> (\<forall>k. op \<noteq> DelSc k)
     \<and> (\<forall>k v. op \<noteq> PutFee k v) \<and> (\<forall>k v. op = PutTx k v \<longrightarrow> v = height b)"
  using assms
  unfolding in_set_connect_batch in_set_connect_tx in_set_connect_ins in_set_connect_outs
  by (elim disjE bexE exE conjE) simp_all



lemma feeIndex_connect_batch: "feeIndex (commit d (connect_batch blockId b)) = feeIndex d"
  using connect_batch_puts by (intro feeIndex_commit) blast





lemma connect_first_phase:
  assumes "rpcBlock e blockId = Inr b" and "writeErr e (connect_batch blockId b) = None"
  shows "connect e d blockId h =
           (case connect2ndOrder e (commit d (connect_batch blockId b)) blockId b of
              (r, d'') \<Rightarrow> (r, d'', connect_events e blockId b))"
  using assms by (simp add: connect_def atomic_write_def)

lemma commit_single: "commit d [x] = apply_op d x"
  by (simp add: commit_def)

lemma connect_feeIndex:
  "connect e d blockId h = (r, d', ev) \<Longrightarrow>
     (r = None \<longrightarrow> (\<exists>b q. rpcBlock e blockId = Inr b
         \<and> feeIndex d' = (feeIndex d)(height b \<mapsto> (q, blockSize b))))
     \<and> (r \<noteq> None \<longrightarrow> feeIndex d' = feeIndex d)"
  by (auto simp: connect_def atomic_write_def connect2ndOrder_def feeIndex_connect_batch
      commit_single split: sum.splits option.splits)

lemma disconnect_batch_no_fee:
  "op \<in> set (disconnect_batch b) \<Longrightarrow> \<forall>k v. op \<noteq> PutFee k v"
  by (auto simp: disconnect_batch_def disconnect_tx_def set_disconnect_ins set_disconnect_outs)

lemma feeIndex_disconnect_batch: "feeIndex (commit d (disconnect_batch b)) = feeIndex d"
  using disconnect_batch_no_fee by (intro feeIndex_commit) blast

lemma tip_disconnect_batch:
  "tip (commit d (disconnect_batch b)) = Some (previousblockhash b, height b)"
  by (simp add: disconnect_batch_def commit_snoc)

lemma disconnect_feeIndex:
  "disconnect e d blockId = (r, d', ev) \<Longrightarrow> feeIndex d' = feeIndex d"
  by (auto simp: disconnect_def atomic_write_def feeIndex_disconnect_batch
      split: sum.splits option.splits)

lemma step_invariant:
  assumes "live \<subseteq> ever" and "dom (feeIndex d) = ever"
    and "step (d, live, ever) c = (d', live', ever')"
  shows "live' \<subseteq> ever' \<and> dom (feeIndex d') = ever'"
proof (cases c)
  case (Pair e cl)
  show ?thesis
  proof (cases cl)
    case (Connect blockId h)
    obtain r d1 ev where c: "connect e d blockId h = (r, d1, ev)"
      by (cases "connect e d blockId h") auto
    show ?thesis
    proof (cases r)
      case None
      with connect_feeIndex [OF c] obtain b q where b: "rpcBlock e blockId = Inr b"
        "feeIndex d1 = (feeIndex d)(height b \<mapsto> (q, blockSize b))"
        by blast
      with assms c None Pair Connect show ?thesis
        by (auto simp: step_def)
    next
      case (Some err)
      with connect_feeIndex [OF c] have "feeIndex d1 = feeIndex d"
        by simp
      with assms c Some Pair Connect show ?thesis
        by (auto simp: step_def split: sum.splits)
    qed
  next
    case (Disconnect blockId)
    obtain r d1 ev where c: "disconnect e d blockId = (r, d1, ev)"
      by (cases "disconnect e d blockId") auto
    from disconnect_feeIndex [OF c] have "feeIndex d1 = feeIndex d" .
    with assms c Pair Disconnect show ?thesis
      by (auto simp: step_def split: sum.splits option.splits)
  qed
qed

lemma run_invariant:
  "run calls = (d, live, ever) \<Longrightarrow> live \<subseteq> ever \<and> dom (feeIndex d) = ever"
proof (induction calls arbitrary: d live ever rule: rev_induct)
  case Nil
  then show ?case by (auto simp: run_def empty_db_def)
next
  case (snoc c calls)
  obtain d0 c0 e0 where s: "run calls = (d0, c0, e0)"
    by (cases "run calls") auto
  from snoc.prems s have "step (d0, c0, e0) c = (d, live, ever)"
    by (simp add: run_def)
  with snoc.IH [OF s] show ?case
    using step_invariant by blast
qed

lemmas ex_defs = reliable_def ex_rpc_def ex_db_def empty_db_def ex_block_def ex_coinbase_tx_def
  ex_spend_tx_def ex_mixed_tx_def ex_mixed_block_def ex_coinbase_block_def
  ex_unsorted_block_def

lemmas op_defs = connect_def atomic_write_def commit_def connect_batch_def connect_tx_def
  connect_ins_def connect_outs_def connect2ndOrder_def task_def subTasks_def subTask_def
  get_txoIndex_def box_def connect_events_def events_tx_def events_block_def
  disconnect_def disconnect_batch_def disconnect_tx_def disconnect_ins_def disconnect_outs_def

lemma update_fresh: "k \<notin> fst ` set al \<Longrightarrow> AList.update k v al = al @ [(k, v)]"
  by (induction al) auto

lemma foldl_update_fresh:
  "distinct (map f xs) \<Longrightarrow> \<forall>x \<in> set xs. f x \<notin> fst ` set acc \<Longrightarrow>
     foldl (\<lambda>m x. AList.update (f x) (g x) m) acc xs = acc @ map (\<lambda>x. (f x, g x)) xs"
proof (induction xs arbitrary: acc)
  case Nil
  then show ?case by simp
next
  case (Cons x xs)
  have u: "AList.update (f x) (g x) acc = acc @ [(f x, g x)]"
    using Cons.prems(2) by (simp add: update_fresh)
  have "\<forall>y \<in> set xs. f y \<notin> fst ` set (acc @ [(f x, g x)])"
    using Cons.prems by (force simp: image_iff)
  with Cons.IH [of "acc @ [(f x, g x)]"] Cons.prems(1) u show ?case
    by simp
qed

lemma foldl_update_keys:
  "fst ` set (foldl (\<lambda>m x. AList.update (f x) (g x) m) acc xs) = fst ` set acc \<union> f ` set xs"
proof (induction xs arbitrary: acc)
  case Nil
  then show ?case by simp
next
  case (Cons x xs)
  have "fst ` set (AList.update (f x) (g x) acc) = insert (f x) (fst ` set acc)"
    using dom_update [of "f x" "g x" acc] by simp
  with Cons.IH [of "AList.update (f x) (g x) acc"] show ?case
    by auto
qed

lemma foldl_update_distinct:
  "distinct (map fst acc) \<Longrightarrow> distinct (map fst (foldl (\<lambda>m x. AList.update (f x) (g x) m) acc xs))"
  by (induction xs arbitrary: acc) (auto simp: distinct_update)

lemma in_set_update:
  "(k, w) \<in> set (AList.update k' v al) \<Longrightarrow> (k, w) \<in> set al \<or> (k = k' \<and> w = v)"
  by (induction al) (auto split: if_splits)

lemma foldl_update_entries:
  "(k, w) \<in> set (foldl (\<lambda>m x. AList.update (f x) (g x) m) acc xs) \<Longrightarrow>
     (k, w) \<in> set acc \<or> (\<exists>x \<in> set xs. k = f x \<and> w = g x)"
proof (induction xs arbitrary: acc)
  case Nil
  then show ?case by simp
next
  case (Cons x xs)
  from Cons.prems have "(k, w) \<in> set (foldl (\<lambda>m x. AList.update (f x) (g x) m) (AList.update (f x) (g x) acc) xs)"
    by simp
  from Cons.IH [OF this] have "(k, w) \<in> set (AList.update (f x) (g x) acc) \<or> (\<exists>x \<in> set xs. k = f x \<and> w = g x)" .
  moreover have "(k, w) \<in> set (AList.update (f x) (g x) acc) \<Longrightarrow> (k, w) \<in> set acc \<or> (k = f x \<and> w = g x)"
    using in_set_update [of k w "f x" "g x" acc] by auto
  ultimately show ?case by auto
qed

lemma digit_inj: "a < 10 \<Longrightarrow> b < 10 \<Longrightarrow> digit a = digit b \<Longrightarrow> a = b"
proof -
  assume a: "a < 10" and b: "b < 10" and e: "digit a = digit b"
  have d: "distinct ''0123456789''" by simp
  have l: "length ''0123456789'' = 10" by simp
  from e have "''0123456789'' ! a = ''0123456789'' ! b"
    by (simp only: digit_def)
  with nth_eq_iff_index_eq [OF d, of a b] a b l show "a = b"
    by simp
qed

lemma digit_not_colon: "n < 10 \<Longrightarrow> digit n \<noteq> CHR '':''"
proof -
  assume "n < 10"
  then have "digit n \<in> set ''0123456789''"
    unfolding digit_def by (intro nth_mem) simp
  then show ?thesis by auto
qed

lemma decimal_small: "n < 10 \<Longrightarrow> decimal n = [digit n]"
  by (subst decimal.simps) simp

lemma decimal_large: "\<not> n < 10 \<Longrightarrow> decimal n = decimal (n div 10) @ [digit (n mod 10)]"
  by (subst decimal.simps) simp

lemma decimal_not_Nil: "decimal n \<noteq> []"
  by (cases "n < 10") (simp_all add: decimal_small decimal_large)

lemma decimal_no_colon: "CHR '':'' \<notin> set (decimal n)"
proof (induction n rule: decimal.induct)
  case (1 n)
  show ?case
  proof (cases "n < 10")
    case True
    then show ?thesis
      using digit_not_colon [of n] by (simp add: decimal_small)
  next
    case False
    then show ?thesis
      using 1 digit_not_colon [of "n mod 10"] by (simp add: decimal_large)
  qed
qed

lemma length_decimal_small: "n < 10 \<Longrightarrow> length (decimal n) = 1"
  by (simp only: decimal_small) simp

lemma length_decimal_large: "\<not> n < 10 \<Longrightarrow> 2 \<le> length (decimal n)"
proof -
  assume "\<not> n < 10"
  then have "decimal n = decimal (n div 10) @ [digit (n mod 10)]"
    by (rule decimal_large)
  then have "length (decimal n) = length (decimal (n div 10) @ [digit (n mod 10)])"
    by (rule arg_cong)
  then have "length (decimal n) = length (decimal (n div 10)) + 1"
    by simp
  moreover have "0 < length (decimal (n div 10))"
    using decimal_not_Nil [of "n div 10"] by simp
  ultimately show ?thesis by linarith
qed

lemma decimal_inj: "decimal n = decimal m \<Longrightarrow> n = m"
proof (induction n arbitrary: m rule: decimal.induct)
  case (1 n)
  show ?case
  proof (cases "n < 10")
    case n: True
    have m: "m < 10"
    proof (rule ccontr)
      assume "\<not> m < 10"
      then have "2 \<le> length (decimal m)" by (rule length_decimal_large)
      moreover have "length (decimal n) = 1" using n by (rule length_decimal_small)
      ultimately show False using "1.prems" by simp
    qed
    have "[digit n] = [digit m]"
      using "1.prems" by (simp only: decimal_small [OF n] decimal_small [OF m])
    then have "digit n = digit m" by simp
    with n m show ?thesis by (rule digit_inj)
  next
    case n: False
    have m: "\<not> m < 10"
    proof
      assume "m < 10"
      then have "length (decimal m) = 1" by (rule length_decimal_small)
      moreover have "2 \<le> length (decimal n)" using n by (rule length_decimal_large)
      ultimately show False using "1.prems" by simp
    qed
    have "decimal (n div 10) @ [digit (n mod 10)] = decimal (m div 10) @ [digit (m mod 10)]"
      using "1.prems" by (simp only: decimal_large [OF n] decimal_large [OF m])
    then have d: "decimal (n div 10) = decimal (m div 10)"
      and l: "digit (n mod 10) = digit (m mod 10)"
      by simp_all
    from d have q: "n div 10 = m div 10"
      by (rule "1.IH" [OF n])
    have "n mod 10 < 10" "m mod 10 < 10" by simp_all
    then have r: "n mod 10 = m mod 10"
      using l by (rule digit_inj)
    have "n = n div 10 * 10 + n mod 10" by simp
    also have "\<dots> = m div 10 * 10 + m mod 10" by (simp only: q r)
    also have "\<dots> = m" by simp
    finally show ?thesis .
  qed
qed

lemma colon_split:
  assumes "a @ CHR '':'' # x = b @ CHR '':'' # y"
    and "CHR '':'' \<notin> set x" and "CHR '':'' \<notin> set y"
  shows "a = b \<and> x = y"
proof -
  have tw: "takeWhile (\<lambda>c. c \<noteq> CHR '':'') (rev (u @ CHR '':'' # w)) = rev w"
    if "CHR '':'' \<notin> set w" for u w
  proof -
    have "takeWhile (\<lambda>c. c \<noteq> CHR '':'') (rev w @ CHR '':'' # rev u)
        = rev w @ takeWhile (\<lambda>c. c \<noteq> CHR '':'') (CHR '':'' # rev u)"
      using that by (intro takeWhile_append2) auto
    then show ?thesis by simp
  qed
  from assms(1) have "rev (a @ CHR '':'' # x) = rev (b @ CHR '':'' # y)"
    by simp
  then have "takeWhile (\<lambda>c. c \<noteq> CHR '':'') (rev (a @ CHR '':'' # x))
      = takeWhile (\<lambda>c. c \<noteq> CHR '':'') (rev (b @ CHR '':'' # y))"
    by (rule arg_cong)
  then have "rev x = rev y"
    by (simp only: tw [OF assms(2)] tw [OF assms(3)])
  then have "x = y" by simp
  with assms(1) show ?thesis by simp
qed

lemma txoKey_inj:
  assumes "txoKey t v = txoKey t' v'"
  shows "t = t' \<and> v = v'"
proof -
  from assms have "t @ CHR '':'' # decimal v = t' @ CHR '':'' # decimal v'"
    by (simp add: txoKey_def)
  then have "t = t' \<and> decimal v = decimal v'"
    using decimal_no_colon [of v] decimal_no_colon [of v'] by (rule colon_split)
  then show ?thesis
    using decimal_inj by blast
qed

lemma lex_between:
  fixes a a' :: "'a::linorder" and x y z :: "'b::linorder"
  shows "(a, x) \<le> (a', y) \<and> (a', y) < (a, z) \<longleftrightarrow> a' = a \<and> x \<le> y \<and> y < z"
proof (cases "a' = a")
  case True
  then show ?thesis by simp
next
  case False
  then have "a < a' \<or> a' < a" by auto
  then show ?thesis
  proof
    assume "a < a'"
    then have "\<not> a' < a" "\<not> a' \<le> a" by auto
    with False show ?thesis by simp
  next
    assume "a' < a"
    then have "\<not> a < a'" "\<not> a \<le> a'" by auto
    with False show ?thesis by simp
  qed
qed

lemma sc_range:
  assumes "ZERO64 \<le> t"
  shows "(sc::string, h, ZERO64, 0) \<le> (sc', h', t, v::nat) \<and> (sc', h', t, v) < (sc, 0xffffffff, ZERO64, 0)
         \<longleftrightarrow> sc' = sc \<and> h \<le> h' \<and> h' < (0xffffffff::nat)"
proof -
  have lo: "(ZERO64, 0::nat) \<le> (t, v)"
    using assms by auto
  have hi: "\<not> (t, v) < (ZERO64, 0::nat)"
    using assms by auto
  have 1: "(h, ZERO64, 0::nat) \<le> (h', t, v) \<longleftrightarrow> h \<le> h'"
    using lo by (simp only: less_eq_prod_simp) auto
  have 2: "(h', t, v) < (0xffffffff::nat, ZERO64, 0::nat) \<longleftrightarrow> h' < 0xffffffff"
    using hi by (simp only: less_prod_simp) auto
  have "(sc, h, ZERO64, 0::nat) \<le> (sc', h', t, v) \<and> (sc', h', t, v) < (sc, 0xffffffff, ZERO64, 0)
         \<longleftrightarrow> sc' = sc \<and> (h, ZERO64, 0::nat) \<le> (h', t, v) \<and> (h', t, v) < (0xffffffff, ZERO64, 0)"
    by (rule lex_between)
  then show ?thesis
    by (simp only: 1 2)
qed

lemma txos_fold:
  "txosByScriptId e d sc h =
     (case iterErr e ScIndex of
        Some err \<Rightarrow> Inl err
      | None \<Rightarrow>
          Inr (foldl
            (\<lambda>m k. AList.update (txoKey (fst (snd (snd k))) (snd (snd (snd k))))
                     (fst (snd (snd k)), snd (snd (snd k)), sc, fst (snd k)) m)
            []
            (iterator_scIndex d (sc, h, ZERO64, 0) (sc, 0xffffffff, ZERO64, 0))))"
proof -
  have f: "(\<lambda>resultMap (sc', h', t, vout). AList.update (txoKey t vout) (t, vout, sc, h') resultMap)
      = (\<lambda>m k. AList.update (txoKey (fst (snd (snd k))) (snd (snd (snd k))))
                     (fst (snd (snd k)), snd (snd (snd k)), sc, fst (snd k)) m)"
    by (auto simp: fun_eq_iff)
  show ?thesis
    unfolding txosByScriptId_def f ..
qed

lemma iterator_scIndex_range:
  assumes "\<forall>k \<in> scIndex d. ZERO64 \<le> fst (snd (snd k))"
  shows "iterator_scIndex d (sc, h, ZERO64, 0) (sc, 0xffffffff, ZERO64, 0) =
           sorted_list_of_set
             {k \<in> scIndex d. fst k = sc \<and> h \<le> fst (snd k) \<and> fst (snd k) < 0xffffffff}"
proof -
  have "{k \<in> scIndex d. (sc, h, ZERO64, 0) \<le> k \<and> k < (sc, 0xffffffff, ZERO64, 0)} =
      {k \<in> scIndex d. fst k = sc \<and> h \<le> fst (snd k) \<and> fst (snd k) < 0xffffffff}"
  proof (rule Collect_cong)
    fix k :: "string \<times> nat \<times> string \<times> nat"
    obtain sc' h' t v where k: "k = (sc', h', t, v)"
      by (cases k) auto
    show "(k \<in> scIndex d \<and> (sc, h, ZERO64, 0) \<le> k \<and> k < (sc, 0xffffffff, ZERO64, 0)) =
        (k \<in> scIndex d \<and> fst k = sc \<and> h \<le> fst (snd k) \<and> fst (snd k) < 0xffffffff)"
    proof (cases "k \<in> scIndex d")
      case True
      with assms k have "ZERO64 \<le> t" by force
      from sc_range [OF this, of sc h sc' h' v] True k show ?thesis
        by simp
    next
      case False
      then show ?thesis by simp
    qed
  qed
  then show ?thesis
    by (simp only: iterator_scIndex_def)
qed

lemma sorted_snd_same_fst:
  fixes ks :: "('a::linorder \<times> 'b::linorder) list"
  assumes "sorted ks" and "\<forall>k \<in> set ks. fst k = a"
  shows "sorted (map snd ks)"
  using assms
proof (induction ks)
  case Nil
  then show ?case by simp
next
  case (Cons k ks)
  have "\<forall>k' \<in> set ks. snd k \<le> snd k'"
  proof
    fix k' assume m: "k' \<in> set ks"
    with Cons.prems have "k \<le> k'" "fst k = fst k'" by auto
    then show "snd k \<le> snd k'"
      by (cases k; cases k') auto
  qed
  with Cons show ?case by simp
qed

lemma ex_scan:
  "{k \<in> scIndex ex_sc_db. (''s1'', 100, ZERO64, 0) \<le> k \<and> k < (''s1'', 0xffffffff, ZERO64, 0)}
     = {(''s1'', 100, ''c1'', 0), (''s1'', 100, ''t2'', 1)}"
  by (auto simp: ex_sc_db_def ZERO64_def less_char_def less_eq_char_def)

lemma ex_scan_sorted:
  "iterator_scIndex ex_sc_db (''s1'', 100, ZERO64, 0) (''s1'', 0xffffffff, ZERO64, 0)
     = [(''s1'', 100, ''c1'', 0), (''s1'', 100, ''t2'', 1)]"
  unfolding iterator_scIndex_def ex_scan
  by (simp add: less_char_def less_eq_char_def)

lemma ex_txos:
  "txosByScriptId (reliable ex_rpc) ex_sc_db ''s1'' 100
     = Inr [(''c1:0'', ''c1'', 0, ''s1'', 100), (''t2:1'', ''t2'', 1, ''s1'', 100)]"
  unfolding txosByScriptId_def ex_scan_sorted
  by (simp add: reliable_def txoKey_def decimal_small digit_def)

lemma foldl_update_True:
  "\<forall>x \<in> set acc. snd x \<Longrightarrow>
     \<forall>x \<in> set (foldl (\<lambda>m x. AList.update (f x) True m) acc xs). snd x"
proof (induction xs arbitrary: acc)
  case Nil
  then show ?case by simp
next
  case (Cons a xs)
  have "\<forall>x \<in> set (AList.update (f a) True acc). snd x"
  proof
    fix x assume "x \<in> set (AList.update (f a) True acc)"
    then have "(fst x, snd x) \<in> set (AList.update (f a) True acc)" by simp
    from in_set_update [OF this] Cons.prems show "snd x" by auto
  qed
  from Cons.IH [OF this] show ?case by simp
qed

lemma fold_spent_eq:
  "foldl (\<lambda>txIds spent. case spent of None \<Rightarrow> txIds | Some (t, vin) \<Rightarrow> AList.update t True txIds)
       acc spentMap
     = foldl (\<lambda>m p. AList.update (fst p) True m) acc (List.map_filter id spentMap)"
proof (induction spentMap arbitrary: acc)
  case Nil
  then show ?case by (simp add: List.map_filter_simps)
next
  case (Cons s spentMap)
  then show ?case
    by (cases s) (simp_all add: List.map_filter_simps case_prod_unfold)
qed

lemma set_map_filter_id: "set (List.map_filter id xs) = {p. Some p \<in> set xs}"
  by (induction xs) (auto simp: List.map_filter_simps split: option.splits)

lemma fold_created_eq:
  fixes txosMap :: "(string \<times> string \<times> nat \<times> string \<times> nat) list"
    and acc :: "(string \<times> bool) list"
  shows "foldl (\<lambda>txIds (x, (t, vout, sc', h')). AList.update t True txIds) acc txosMap
     = foldl (\<lambda>m y. AList.update (fst (snd y)) True m) acc txosMap"
proof -
  have f: "(\<lambda>txIds (x, (t, vout, sc', h')). AList.update t True txIds)
      = (\<lambda>(m :: (string \<times> bool) list) (y :: string \<times> string \<times> nat \<times> string \<times> nat).
           AList.update (fst (snd y)) True m)"
    by (auto simp: fun_eq_iff)
  show ?thesis
    unfolding f ..
qed

lemma ex_txids:
  "transactionIdsByScriptId (reliable ex_rpc) ex_sc_db ''s1'' 100
     = Inr [(''t2'', True), (''f9'', True), (''c1'', True)]"
  unfolding transactionIdsByScriptId_def ex_txos
  by (simp add: spentFromTxo_def get_spentIndex_def reliable_def ex_sc_db_def empty_db_def)

subsection \<open>Fee quartiles\<close>

text \<open>
  C2. The fee summary is computed from the sample sorted ascending. When all tasks of the
  second phase succeed with the rates \<open>rates\<close> and the commit succeeds, \<open>connect2ndOrder\<close>
  answers success and writes at the height of the block the row made of \<open>box\<close> of the
  sorted rates and the block size, and so does \<open>connect\<close> once the block is fetched and
  the first batch committed. The sorted sample is an ascending rearrangement of the rates,
  the quartiles are its elements at ranks \<open>n div 4\<close>, \<open>n div 2\<close> and \<open>n div 2 + n div 4\<close> (all
  three inside the sample when it is not empty), the empty sample gives three zeros, and
  the sample 1, ..., 8 gives 3, 5 and 7.
\<close>

theorem box_sorted_quartiles:
  "(parallel (map (task e d) (transactions b)) = Inr rates
      \<and> writeErr e [PutFee (height b) (box (sort rates), blockSize b)] = None \<longrightarrow>
        connect2ndOrder e d blockId b =
          (None, d\<lparr>feeIndex := (feeIndex d)(height b \<mapsto> (box (sort rates), blockSize b))\<rparr>))
   \<and> (rpcBlock e blockId = Inr b \<and> writeErr e (connect_batch blockId b) = None
      \<and> parallel (map (task e (commit d (connect_batch blockId b))) (transactions b)) = Inr rates
      \<and> writeErr e [PutFee (height b) (box (sort rates), blockSize b)] = None \<longrightarrow>
        fst (connect e d blockId h) = None
        \<and> feeIndex (fst (snd (connect e d blockId h))) (height b)
            = Some (box (sort rates), blockSize b))
   \<and> sorted (sort rates) \<and> mset (sort rates) = mset rates
   \<and> (rates = [] \<longrightarrow> box (sort rates) = \<lparr>q1 = 0, median = 0, q3 = 0\<rparr>)
   \<and> (rates \<noteq> [] \<longrightarrow>
        length rates div 2 + length rates div 4 < length (sort rates)
        \<and> box (sort rates) =
            \<lparr>q1 = sort rates ! (length rates div 4),
             median = sort rates ! (length rates div 2),
             q3 = sort rates ! (length rates div 2 + length rates div 4)\<rparr>)
   \<and> box (sort [1, 2, 3, 4, 5, 6, 7, 8]) = \<lparr>q1 = 3, median = 5, q3 = 7\<rparr>"
proof -
  have second: "connect2ndOrder e d' blockId b =
          (None, d'\<lparr>feeIndex := (feeIndex d')(height b \<mapsto> (box (sort rates), blockSize b))\<rparr>)"
    if "parallel (map (task e d') (transactions b)) = Inr rates"
      and "writeErr e [PutFee (height b) (box (sort rates), blockSize b)] = None" for d'
    using that by (simp add: connect2ndOrder_def atomic_write_def commit_single)
  have whole: "fst (connect e d blockId h) = None
        \<and> feeIndex (fst (snd (connect e d blockId h))) (height b)
            = Some (box (sort rates), blockSize b)"
    if f: "rpcBlock e blockId = Inr b" and w: "writeErr e (connect_batch blockId b) = None"
      and p: "parallel (map (task e (commit d (connect_batch blockId b))) (transactions b)) = Inr rates"
      and w2: "writeErr e [PutFee (height b) (box (sort rates), blockSize b)] = None"
    using connect_first_phase [OF f w, of d h] second [OF p w2] by simp
  have ex: "box (sort [1, 2, 3, 4, 5, 6, 7, 8]) = \<lparr>q1 = 3, median = 5, q3 = 7\<rparr>"
    by (simp add: box_def)
  have ne: "rates \<noteq> [] \<Longrightarrow> length rates div 2 + length rates div 4 < length (sort rates)"
    using box_indices [of "length rates"] by simp
  have quart: "sorted (sort rates) \<and> mset (sort rates) = mset rates
   \<and> (rates = [] \<longrightarrow> box (sort rates) = \<lparr>q1 = 0, median = 0, q3 = 0\<rparr>)
   \<and> (rates \<noteq> [] \<longrightarrow>
        length rates div 2 + length rates div 4 < length (sort rates)
        \<and> box (sort rates) =
            \<lparr>q1 = sort rates ! (length rates div 4),
             median = sort rates ! (length rates div 2),
             q3 = sort rates ! (length rates div 2 + length rates div 4)\<rparr>)
   \<and> box (sort [1, 2, 3, 4, 5, 6, 7, 8]) = \<lparr>q1 = 3, median = 5, q3 = 7\<rparr>"
    using ex ne by (simp add: box_def Let_def)
  show ?thesis
  proof (intro conjI impI)
    assume "parallel (map (task e d) (transactions b)) = Inr rates
      \<and> writeErr e [PutFee (height b) (box (sort rates), blockSize b)] = None"
    then show "connect2ndOrder e d blockId b =
          (None, d\<lparr>feeIndex := (feeIndex d)(height b \<mapsto> (box (sort rates), blockSize b))\<rparr>)"
      using second by blast
  next
    assume a: "rpcBlock e blockId = Inr b \<and> writeErr e (connect_batch blockId b) = None
      \<and> parallel (map (task e (commit d (connect_batch blockId b))) (transactions b)) = Inr rates
      \<and> writeErr e [PutFee (height b) (box (sort rates), blockSize b)] = None"
    then show "fst (connect e d blockId h) = None" using whole by blast
    from a show "feeIndex (fst (snd (connect e d blockId h))) (height b)
            = Some (box (sort rates), blockSize b)" using whole by blast
  qed (use quart in blast)+
qed

theorem box_sorted_quartiles_witness:
  "parallel (map (task (reliable ex_rpc) ex_db) (transactions ex_unsorted_block)) = Inr [2, 0]
   \<and> writeErr (reliable ex_rpc) [PutFee 101 (box (sort [2, 0]), 350)] = None
   \<and> connect2ndOrder (reliable ex_rpc) ex_db ''U'' ex_unsorted_block =
       (None, ex_db\<lparr>feeIndex := (feeIndex ex_db)(101 \<mapsto> (\<lparr>q1 = 0, median = 2, q3 = 2\<rparr>, 350))\<rparr>)
   \<and> rpcBlock (reliable ex_rpc) ''U'' = Inr ex_unsorted_block
   \<and> fst (connect (reliable ex_rpc) ex_db ''U'' 101) = None
   \<and> feeIndex (fst (snd (connect (reliable ex_rpc) ex_db ''U'' 101))) 101
       = Some (\<lparr>q1 = 0, median = 2, q3 = 2\<rparr>, 350)
   \<and> [5, 1, 3] \<noteq> ([] :: int list)
   \<and> box (sort [5, 1, 3]) = \<lparr>q1 = 1, median = 3, q3 = 3\<rparr>
   \<and> box (sort []) = \<lparr>q1 = 0, median = 0, q3 = 0\<rparr>"
proof -
  have p: "parallel (map (task (reliable ex_rpc) ex_db) (transactions ex_unsorted_block)) = Inr [2, 0]"
    by (simp add: task_def subTasks_def subTask_def get_txoIndex_def ex_defs)
  have p': "parallel (map (task (reliable ex_rpc)
        (commit ex_db (connect_batch ''U'' ex_unsorted_block))) (transactions ex_unsorted_block))
      = Inr [2, 0]"
    by (simp add: task_def subTasks_def subTask_def get_txoIndex_def commit_def connect_batch_def
        connect_tx_def connect_ins_def connect_outs_def ex_defs)
  have w: "writeErr (reliable ex_rpc) batch = None" for batch
    by (simp add: reliable_def)
  have f: "rpcBlock (reliable ex_rpc) ''U'' = Inr ex_unsorted_block"
    by (simp add: reliable_def ex_rpc_def)
  have hb: "height ex_unsorted_block = 101" "blockSize ex_unsorted_block = 350"
    by (simp_all add: ex_unsorted_block_def)
  have bx: "box (sort [2, 0]) = \<lparr>q1 = 0, median = 2, q3 = 2\<rparr>"
    by (simp add: box_def)
  show ?thesis
    using p p' w f hb bx
      box_sorted_quartiles [of "reliable ex_rpc" ex_db ex_unsorted_block "[2, 0]" "''U''" 101]
      box_sorted_quartiles [of "reliable ex_rpc" ex_db ex_unsorted_block "[5, 1, 3]" "''U''" 101]
      box_sorted_quartiles [of "reliable ex_rpc" ex_db ex_unsorted_block "[]" "''U''" 101]
    by simp
qed

subsection \<open>The height argument of connect\<close>

text \<open>
  C9. The height argument of \<open>connect\<close> has no influence on its outcome: for every
  collaborator behaviour, store and block identifier, two calls that differ only in the
  height argument give the same answer, the same store (all six indices) and the same
  notifications, since every write takes the height of the fetched block.
\<close>

theorem connect_height_arg_irrelevant:
  "connect e d blockId h1 = connect e d blockId h2"
  by (simp add: connect_def)

subsection \<open>Fee rate of a transaction\<close>

text \<open>
  C3. A transaction with at least one coinbase input contributes the rate 0, whatever its
  outputs, the store and the outcome of any lookup. A transaction with no coinbase input
  whose lookups all resolve, of positive virtual size, contributes the floor of
  (sum of the resolved input values minus sum of the output values) divided by the virtual
  size, negative or not. The sample of the block holds, position by position, the
  contribution of each transaction.
\<close>

theorem fee_rate_contribution:
  "((\<exists>input \<in> set (ins t). coinbase input) \<longrightarrow> task e d t = Inr 0)
   \<and> ((\<forall>input \<in> set (ins t). \<not> coinbase input
           \<and> getErr e (TxoKey (prevTxId input, txin.vout input)) = None
           \<and> txoIndex d (prevTxId input, txin.vout input) \<noteq> None) \<and> 0 < vsize t \<longrightarrow>
        task e d t =
          Inr \<lfloor>real_of_int
                 (sum_list (map (\<lambda>input. the (txoIndex d (prevTxId input, txin.vout input))) (ins t))
                  - sum_list (map value (outs t)))
               / real (vsize t)\<rfloor>)
   \<and> (parallel (map (task e d) txs) = Inr feeRates \<longrightarrow> map (task e d) txs = map Inr feeRates)"
proof (intro conjI impI)
  assume "\<exists>input \<in> set (ins t). coinbase input"
  then show "task e d t = Inr 0"
    by (simp add: task_def)
next
  assume a: "(\<forall>input \<in> set (ins t). \<not> coinbase input
           \<and> getErr e (TxoKey (prevTxId input, txin.vout input)) = None
           \<and> txoIndex d (prevTxId input, txin.vout input) \<noteq> None) \<and> 0 < vsize t"
  then have nocb: "filter (\<lambda>input. \<not> coinbase input) (ins t) = ins t"
    by (simp add: filter_id_conv)
  have "subTasks e d (ins t) =
           map Inr (map (\<lambda>input. the (txoIndex d (prevTxId input, txin.vout input))) (ins t))"
    using a subTasks_resolved [of "ins t" e d] nocb by simp
  then have p: "parallel (subTasks e d (ins t)) =
           Inr (map (\<lambda>input. the (txoIndex d (prevTxId input, txin.vout input))) (ins t))"
    by (simp only: parallel_map_Inr)
  have fl: "\<lfloor>real_of_int k / real n\<rfloor> = k div int n" for k n
    using floor_divide_of_int_eq [of k "int n"] by simp
  show "task e d t =
          Inr \<lfloor>real_of_int
                 (sum_list (map (\<lambda>input. the (txoIndex d (prevTxId input, txin.vout input))) (ins t))
                  - sum_list (map value (outs t)))
               / real (vsize t)\<rfloor>"
  proof -
    have "task e d t =
          Inr ((sum_list (map (\<lambda>input. the (txoIndex d (prevTxId input, txin.vout input))) (ins t))
                  - sum_list (map value (outs t))) div int (vsize t))"
      using a p by (simp add: task_def Let_def)
    then show ?thesis
      by (simp only: fl)
  qed
next
  assume "parallel (map (task e d) txs) = Inr feeRates"
  then show "map (task e d) txs = map Inr feeRates"
    by (simp add: parallel_Inr_iff)
qed

theorem fee_rate_contribution_witness:
  "coinbase (hd (ins ex_coinbase_tx))
   \<and> task (reliable ex_rpc) ex_db ex_coinbase_tx = Inr 0
   \<and> \<not> coinbase (hd (ins ex_spend_tx))
   \<and> txoIndex ex_db (''a0'', 0) = Some 1000
   \<and> 0 < vsize ex_spend_tx
   \<and> task (reliable ex_rpc) ex_db ex_spend_tx = Inr \<lfloor>real_of_int (1000 - 750) / real (125::nat)\<rfloor>
   \<and> parallel (map (task (reliable ex_rpc) ex_db) (transactions ex_block)) = Inr [0, 2]
   \<and> map (task (reliable ex_rpc) ex_db) (transactions ex_block) = map Inr [0, 2]"
proof -
  have p: "parallel (map (task (reliable ex_rpc) ex_db) (transactions ex_block)) = Inr [0, 2]"
    by (simp add: task_def subTasks_def subTask_def get_txoIndex_def reliable_def ex_db_def
        ex_block_def ex_coinbase_tx_def ex_spend_tx_def)
  show ?thesis
    using p
      fee_rate_contribution [of ex_coinbase_tx "reliable ex_rpc" ex_db "transactions ex_block" "[0, 2]"]
      fee_rate_contribution [of ex_spend_tx "reliable ex_rpc" ex_db "transactions ex_block" "[0, 2]"]
    by (simp add: reliable_def ex_db_def ex_coinbase_tx_def ex_spend_tx_def)
qed

subsection \<open>Disconnect: frame\<close>

text \<open>
  C8. \<open>disconnect\<close> emits no notification and leaves every FeeIndex entry as it was. When
  the block is fetched, the store afterwards is either the store before (the commit failed)
  or the store before with the batch applied, and the batch is a list of deletions followed
  by one write of the tip: each deletion removes the TxIndex entry of a transaction of the
  block, the SpentIndex entry of one of its non-coinbase inputs, or the ScriptIndex or
  TxoIndex entry of one of its outputs. When the block cannot be fetched the store is
  unchanged.
\<close>

theorem disconnect_frame:
  "snd (snd (disconnect e d blockId)) = []
   \<and> feeIndex (fst (snd (disconnect e d blockId))) = feeIndex d
   \<and> (\<forall>err. rpcBlock e blockId = Inl err \<longrightarrow> fst (snd (disconnect e d blockId)) = d)
   \<and> (\<forall>b. rpcBlock e blockId = Inr b \<longrightarrow>
        (fst (snd (disconnect e d blockId)) = d
         \<or> fst (snd (disconnect e d blockId)) = commit d (disconnect_batch b))
        \<and> (\<exists>dels. disconnect_batch b = dels @ [PutTip (previousblockhash b, height b)]
             \<and> (\<forall>op \<in> set dels. \<exists>t \<in> set (transactions b).
                    op = DelTx (txId t)
                    \<or> (\<exists>input \<in> set (ins t). \<not> coinbase input
                          \<and> op = DelSpent (prevTxId input, txin.vout input))
                    \<or> (\<exists>i < length (outs t).
                          op = DelSc (scId (outs t ! i), height b, txId t, i)
                          \<or> op = DelTxo (txId t, i)))))"
proof -
  have dels: "\<forall>op \<in> set (concat (map (disconnect_tx (height b)) (transactions b))).
      \<exists>t \<in> set (transactions b).
        op = DelTx (txId t)
        \<or> (\<exists>input \<in> set (ins t). \<not> coinbase input
              \<and> op = DelSpent (prevTxId input, txin.vout input))
        \<or> (\<exists>i < length (outs t).
              op = DelSc (scId (outs t ! i), height b, txId t, i) \<or> op = DelTxo (txId t, i))" for b
    by (auto simp: disconnect_tx_def set_disconnect_ins set_disconnect_outs)
  have nofee: "\<forall>op \<in> set (disconnect_batch b). \<forall>k v. op \<noteq> PutFee k v" for b
    using dels [of b] by (auto simp: disconnect_batch_def)
  have fee: "feeIndex (fst (snd (disconnect e d blockId))) = feeIndex d"
    using nofee
    by (auto simp: disconnect_def atomic_write_def feeIndex_commit split: sum.splits option.splits)
  have batch: "\<exists>dels. disconnect_batch b = dels @ [PutTip (previousblockhash b, height b)]
             \<and> (\<forall>op \<in> set dels. \<exists>t \<in> set (transactions b).
                    op = DelTx (txId t)
                    \<or> (\<exists>input \<in> set (ins t). \<not> coinbase input
                          \<and> op = DelSpent (prevTxId input, txin.vout input))
                    \<or> (\<exists>i < length (outs t).
                          op = DelSc (scId (outs t ! i), height b, txId t, i)
                          \<or> op = DelTxo (txId t, i)))" for b
    using dels [of b] unfolding disconnect_batch_def by blast
  have ev: "snd (snd (disconnect e d blockId)) = []"
    by (simp add: disconnect_def split: sum.splits prod.splits)
  have st: "rpcBlock e blockId = Inr b \<Longrightarrow>
        fst (snd (disconnect e d blockId)) = d
         \<or> fst (snd (disconnect e d blockId)) = commit d (disconnect_batch b)" for b
    by (simp add: disconnect_def atomic_write_def split: option.splits)
  have un: "rpcBlock e blockId = Inl err \<Longrightarrow> fst (snd (disconnect e d blockId)) = d" for err
    by (simp add: disconnect_def)
  show ?thesis
    using fee batch ev st un by blast
qed

theorem disconnect_frame_witness:
  "rpcBlock (reliable ex_rpc) ''B'' = Inr ex_block
   \<and> rpcBlock (reliable ex_rpc) ''X'' = Inl FetchError
   \<and> snd (snd (disconnect (reliable ex_rpc) ex_db ''B'')) = []
   \<and> feeIndex (fst (snd (disconnect (reliable ex_rpc) ex_db ''B''))) = feeIndex ex_db
   \<and> fst (snd (disconnect (reliable ex_rpc) ex_db ''X'')) = ex_db
   \<and> disconnect_batch ex_block =
       [DelSc (''s1'', 100, ''c1'', 0), DelTxo (''c1'', 0), DelTx ''c1'',
        DelSpent (''a0'', 0), DelSc (''s2'', 100, ''t2'', 0), DelTxo (''t2'', 0),
        DelSc (''s1'', 100, ''t2'', 1), DelTxo (''t2'', 1), DelTx ''t2'']
       @ [PutTip (previousblockhash ex_block, height ex_block)]"
  using disconnect_frame [of "reliable ex_rpc" ex_db "''B''"]
    disconnect_frame [of "reliable ex_rpc" ex_db "''X''"]
  by (simp add: reliable_def ex_rpc_def disconnect_batch_def disconnect_tx_def
      disconnect_ins_def disconnect_outs_def ex_block_def ex_coinbase_tx_def ex_spend_tx_def)

subsection \<open>Fee history\<close>

text \<open>
  C10. When the read of the tip succeeds and finds no tip, \<open>fees\<close> never calls its callback
  (neither a result nor an error is returned). When the tip is present, the scan succeeds
  and the store holds finitely many FeeIndex entries, \<open>fees\<close> returns exactly the FeeIndex
  entries of height at least the height of the tip minus \<open>n\<close>, in ascending height order.
\<close>

theorem fees_needs_tip:
  "(getErr e TipKey = None \<and> tip d = None \<longrightarrow> fees e d n = Uncaught)
   \<and> (getErr e TipKey = None \<and> iterErr e FeeIndex = None \<and> tip d = Some (blockId, maxHeight)
        \<and> finite (dom (feeIndex d)) \<longrightarrow>
       (\<exists>rows. fees e d n = Callback (Inr rows)
          \<and> sorted (map fst rows) \<and> distinct (map fst rows)
          \<and> set rows = {(h, r). feeIndex d h = Some r \<and> int maxHeight - n \<le> int h}))"
  by (auto simp: fees_def get_tip_def iterator_feeIndex_def comp_def)

theorem fees_needs_tip_witness:
  "getErr (reliable ex_rpc) TipKey = None \<and> tip empty_db = None
   \<and> fees (reliable ex_rpc) empty_db 1 = Uncaught
   \<and> iterErr (reliable ex_rpc) FeeIndex = None \<and> tip ex_db = Some (''P'', 99)
   \<and> finite (dom (feeIndex ex_db))
   \<and> fees (reliable ex_rpc) ex_db 0 = Callback (Inr [(99, box [4], 300)])"
proof -
  have s: "{h \<in> {99, 98::nat}. (99::int) \<le> int h} = {99}"
    by auto
  have f: "fees (reliable ex_rpc) ex_db 0 = Callback (Inr [(99, box [4], 300)])"
    using s by (simp add: fees_def get_tip_def iterator_feeIndex_def reliable_def ex_db_def)
  show ?thesis
    using f fees_needs_tip [of "reliable ex_rpc" empty_db 1 "''P''" 99]
      fees_needs_tip [of "reliable ex_rpc" ex_db 0 "''P''" 99]
    by (simp add: reliable_def ex_db_def empty_db_def)
qed

subsection \<open>A missing previous output\<close>




subsection \<open>Connect followed by disconnect\<close>

text \<open>
  C1 at the block \<open>B\<close> (height 100, previous block \<open>P\<close>) on top of the tip (\<open>P\<close>, 99): both
  calls succeed, and the tip afterwards is (\<open>P\<close>, 100), not the tip (\<open>P\<close>, 99) from before the
  connect. The other four indices are as before the connect.
\<close>

theorem disconnect_tip_height:
  "(tip ex_db = Some (''P'', 99)
    \<and> previousblockhash ex_block = ''P'' \<and> height ex_block = 100
    \<and> fst (connect (reliable ex_rpc) ex_db ''B'' 100) = None
    \<and> tip (fst (snd (connect (reliable ex_rpc) ex_db ''B'' 100))) = Some (''B'', 100)
    \<and> fst (disconnect (reliable ex_rpc) (fst (snd (connect (reliable ex_rpc) ex_db ''B'' 100))) ''B'')
        = None
    \<and> tip (fst (snd (disconnect (reliable ex_rpc)
          (fst (snd (connect (reliable ex_rpc) ex_db ''B'' 100))) ''B''))) = Some (''P'', 100)
    \<and> tip (fst (snd (disconnect (reliable ex_rpc)
          (fst (snd (connect (reliable ex_rpc) ex_db ''B'' 100))) ''B''))) \<noteq> tip ex_db)
   \<and> (txIndex (fst (snd (disconnect (reliable ex_rpc)
          (fst (snd (connect (reliable ex_rpc) ex_db ''B'' 100))) ''B''))) = txIndex ex_db
    \<and> txoIndex (fst (snd (disconnect (reliable ex_rpc)
          (fst (snd (connect (reliable ex_rpc) ex_db ''B'' 100))) ''B''))) = txoIndex ex_db
    \<and> spentIndex (fst (snd (disconnect (reliable ex_rpc)
          (fst (snd (connect (reliable ex_rpc) ex_db ''B'' 100))) ''B''))) = spentIndex ex_db
    \<and> scIndex (fst (snd (disconnect (reliable ex_rpc)
          (fst (snd (connect (reliable ex_rpc) ex_db ''B'' 100))) ''B''))) = scIndex ex_db)"
proof (rule conjI)
  show "tip ex_db = Some (''P'', 99)
    \<and> previousblockhash ex_block = ''P'' \<and> height ex_block = 100
    \<and> fst (connect (reliable ex_rpc) ex_db ''B'' 100) = None
    \<and> tip (fst (snd (connect (reliable ex_rpc) ex_db ''B'' 100))) = Some (''B'', 100)
    \<and> fst (disconnect (reliable ex_rpc) (fst (snd (connect (reliable ex_rpc) ex_db ''B'' 100))) ''B'')
        = None
    \<and> tip (fst (snd (disconnect (reliable ex_rpc)
          (fst (snd (connect (reliable ex_rpc) ex_db ''B'' 100))) ''B''))) = Some (''P'', 100)
    \<and> tip (fst (snd (disconnect (reliable ex_rpc)
          (fst (snd (connect (reliable ex_rpc) ex_db ''B'' 100))) ''B''))) \<noteq> tip ex_db"
    by (simp add: ex_defs op_defs)
next
  show "txIndex (fst (snd (disconnect (reliable ex_rpc)
          (fst (snd (connect (reliable ex_rpc) ex_db ''B'' 100))) ''B''))) = txIndex ex_db
    \<and> txoIndex (fst (snd (disconnect (reliable ex_rpc)
          (fst (snd (connect (reliable ex_rpc) ex_db ''B'' 100))) ''B''))) = txoIndex ex_db
    \<and> spentIndex (fst (snd (disconnect (reliable ex_rpc)
          (fst (snd (connect (reliable ex_rpc) ex_db ''B'' 100))) ''B''))) = spentIndex ex_db
    \<and> scIndex (fst (snd (disconnect (reliable ex_rpc)
          (fst (snd (connect (reliable ex_rpc) ex_db ''B'' 100))) ''B''))) = scIndex ex_db"
    by (auto simp: ex_defs op_defs fun_eq_iff)
qed

subsection \<open>Heights of the fee index\<close>

text \<open>
  C7, as the code has it. In every state reached from the empty store by \<open>connect\<close> and
  \<open>disconnect\<close> calls, the heights of FeeIndex are exactly the heights at which a connect
  has ever succeeded; the heights connected now are among them. A successful connect
  writes the FeeIndex entry of the height of its block and no other; \<open>disconnect\<close> leaves
  FeeIndex as it is.
\<close>

theorem feeIndex_heights:
  "(\<forall>d live ever. run calls = (d, live, ever) \<longrightarrow> live \<subseteq> ever \<and> dom (feeIndex d) = ever)
   \<and> (\<forall>d' ev. connect e d0 blockId h = (None, d', ev) \<longrightarrow>
         (\<exists>b q. rpcBlock e blockId = Inr b
            \<and> feeIndex d' = (feeIndex d0)(height b \<mapsto> (q, blockSize b))))
   \<and> (\<forall>r d' ev. disconnect e d0 blockId = (r, d', ev) \<longrightarrow> feeIndex d' = feeIndex d0)"
proof (intro conjI allI impI)
  fix d live ever
  assume "run calls = (d, live, ever)"
  then show "live \<subseteq> ever" and "dom (feeIndex d) = ever"
    using run_invariant by blast+
next
  fix d' ev
  assume "connect e d0 blockId h = (None, d', ev)"
  from connect_feeIndex [OF this]
  show "\<exists>b q. rpcBlock e blockId = Inr b \<and> feeIndex d' = (feeIndex d0)(height b \<mapsto> (q, blockSize b))"
    by simp
next
  fix r d' ev
  assume "disconnect e d0 blockId = (r, d', ev)"
  then show "feeIndex d' = feeIndex d0"
    by (rule disconnect_feeIndex)
qed

theorem feeIndex_heights_witness:
  "snd (run [(reliable ex_rpc, Connect ''A'' 7), (reliable ex_rpc, Disconnect ''A'')]) = ({}, {7})
   \<and> dom (feeIndex (fst (run [(reliable ex_rpc, Connect ''A'' 7), (reliable ex_rpc, Disconnect ''A'')])))
       = {7}
   \<and> fst (connect (reliable ex_rpc) empty_db ''A'' 7) = None
   \<and> rpcBlock (reliable ex_rpc) ''A'' = Inr ex_coinbase_block"
proof -
  have r: "snd (run [(reliable ex_rpc, Connect ''A'' 7), (reliable ex_rpc, Disconnect ''A'')])
      = ({}, {7})"
    by (simp add: run_def step_def ex_defs op_defs)
  have c: "fst (connect (reliable ex_rpc) empty_db ''A'' 7) = None"
    by (simp add: ex_defs op_defs)
  have b: "rpcBlock (reliable ex_rpc) ''A'' = Inr ex_coinbase_block"
    by (simp add: reliable_def ex_rpc_def)
  obtain d where d: "run [(reliable ex_rpc, Connect ''A'' 7), (reliable ex_rpc, Disconnect ''A'')]
      = (d, {}, {7})"
    using r by (metis prod.collapse)
  have "dom (feeIndex d) = {7}"
    using d
      feeIndex_heights [of "[(reliable ex_rpc, Connect ''A'' 7), (reliable ex_rpc, Disconnect ''A'')]"
        "reliable ex_rpc" empty_db "''A''" 7]
    by blast
  then show ?thesis
    using r c b d by simp
qed

text \<open>
  C7 as stated fails after a connect and a disconnect of the block \<open>A\<close>: no height is
  connected, and FeeIndex still has the entry of height 7.
\<close>

theorem feeIndex_survives_disconnect:
  "fst (snd (run [(reliable ex_rpc, Connect ''A'' 7), (reliable ex_rpc, Disconnect ''A'')])) = {}
   \<and> feeIndex (fst (run [(reliable ex_rpc, Connect ''A'' 7), (reliable ex_rpc, Disconnect ''A'')])) 7
       = Some (\<lparr>q1 = 0, median = 0, q3 = 0\<rparr>, 200)"
  by (simp add: run_def step_def ex_defs op_defs)

subsection \<open>Outputs of a script\<close>

text \<open>
  C5, as the code has it. Let the scan succeed on a store with finitely many ScriptIndex
  entries whose transaction identifiers are not below \<open>ZERO64\<close>. Then \<open>txosByScriptId\<close>
  returns a map with one entry for each output of the script indexed at a height from the
  minimum height up to, but not including, \<^verbatim>\<open>0xffffffff\<close>, and no other entry: the key of
  an entry is \<^verbatim>\<open>txId:vout\<close>, its row carries the transaction, the position, the script asked
  for and a height at which the output is indexed. When no output of the script is indexed
  at two heights, the entries are those of the scan, in ascending order of
  (height, txId, vout).
\<close>

theorem txosByScriptId_scan:
  assumes "iterErr e ScIndex = None" and "finite (scIndex d)"
    and "\<forall>(sc', h', t, v) \<in> scIndex d. ZERO64 \<le> t"
  shows "\<exists>m. txosByScriptId e d sc h = Inr m
      \<and> distinct (map fst m)
      \<and> fst ` set m =
          {txoKey t v | t v h'. (sc, h', t, v) \<in> scIndex d \<and> h \<le> h' \<and> h' < 0xffffffff}
      \<and> (\<forall>(key, t, v, sc', h') \<in> set m.
            key = txoKey t v \<and> sc' = sc \<and> (sc, h', t, v) \<in> scIndex d
            \<and> h \<le> h' \<and> h' < 0xffffffff)
      \<and> ((\<forall>t v h1 h2. (sc, h1, t, v) \<in> scIndex d \<and> (sc, h2, t, v) \<in> scIndex d \<longrightarrow> h1 = h2) \<longrightarrow>
            m = map (\<lambda>(sc', h', t, v). (txoKey t v, t, v, sc, h'))
                  (sorted_list_of_set
                     {(sc', h', t, v). (sc', h', t, v) \<in> scIndex d \<and> sc' = sc
                        \<and> h \<le> h' \<and> h' < 0xffffffff})
            \<and> sorted (map (\<lambda>(key, t, v, sc', h'). (h', t, v)) m))"
proof -
  define K where "K = {k \<in> scIndex d. fst k = sc \<and> h \<le> fst (snd k) \<and> fst (snd k) < 0xffffffff}"
  define xs where "xs = sorted_list_of_set K"
  define f :: "string \<times> nat \<times> string \<times> nat \<Rightarrow> string"
    where "f = (\<lambda>k. txoKey (fst (snd (snd k))) (snd (snd (snd k))))"
  define g :: "string \<times> nat \<times> string \<times> nat \<Rightarrow> string \<times> nat \<times> string \<times> nat"
    where "g = (\<lambda>k. (fst (snd (snd k)), snd (snd (snd k)), sc, fst (snd k)))"
  define m where "m = foldl (\<lambda>m k. AList.update (f k) (g k) m) [] xs"
  have wf: "\<forall>k \<in> scIndex d. ZERO64 \<le> fst (snd (snd k))"
    using assms(3) by auto
  have finK: "finite K"
    using assms(2) by (simp add: K_def)
  have set_xs: "set xs = K" and dist_xs: "distinct xs" and sorted_xs: "sorted xs"
    using finK by (simp_all add: xs_def)
  have K_tuple: "K = {(sc', h', t, v). (sc', h', t, v) \<in> scIndex d \<and> sc' = sc
                        \<and> h \<le> h' \<and> h' < 0xffffffff}"
    by (auto simp: K_def)
  have res: "txosByScriptId e d sc h = Inr m"
    using assms(1) iterator_scIndex_range [OF wf, of sc h]
    by (simp add: txos_fold m_def f_def g_def xs_def K_def)
  have dist: "distinct (map fst m)"
    unfolding m_def by (rule foldl_update_distinct) simp
  have keys: "fst ` set m = f ` K"
    unfolding m_def using foldl_update_keys [of f g "[]" xs] set_xs by simp
  have fK: "f ` K = {txoKey t v | t v h'. (sc, h', t, v) \<in> scIndex d \<and> h \<le> h' \<and> h' < 0xffffffff}"
    by (force simp: K_def f_def image_iff)
  have entries: "\<forall>(key, t, v, sc', h') \<in> set m.
            key = txoKey t v \<and> sc' = sc \<and> (sc, h', t, v) \<in> scIndex d
            \<and> h \<le> h' \<and> h' < 0xffffffff"
  proof -
    have "\<exists>k \<in> K. key = f k \<and> w = g k" if "(key, w) \<in> set m" for key w
      using foldl_update_entries [of key w f g "[]" xs] that set_xs by (simp add: m_def)
    then show ?thesis
      by (force simp: K_def f_def g_def)
  qed
  have ordered: "m = map (\<lambda>(sc', h', t, v). (txoKey t v, t, v, sc, h'))
                  (sorted_list_of_set
                     {(sc', h', t, v). (sc', h', t, v) \<in> scIndex d \<and> sc' = sc
                        \<and> h \<le> h' \<and> h' < 0xffffffff})
            \<and> sorted (map (\<lambda>(key, t, v, sc', h'). (h', t, v)) m)"
    if uniq: "\<forall>t v h1 h2. (sc, h1, t, v) \<in> scIndex d \<and> (sc, h2, t, v) \<in> scIndex d \<longrightarrow> h1 = h2"
  proof -
    have inj: "inj_on f K"
    proof (rule inj_onI)
      fix k1 k2 assume k: "k1 \<in> K" "k2 \<in> K" "f k1 = f k2"
      obtain s1 h1 t1 v1 where k1: "k1 = (s1, h1, t1, v1)" by (cases k1) auto
      obtain s2 h2 t2 v2 where k2: "k2 = (s2, h2, t2, v2)" by (cases k2) auto
      from k(3) k1 k2 have tv: "t1 = t2 \<and> v1 = v2"
        using txoKey_inj [of t1 v1 t2 v2] by (simp add: f_def)
      from k(1,2) k1 k2 have s: "s1 = sc" "s2 = sc" "(s1, h1, t1, v1) \<in> scIndex d"
        "(s2, h2, t2, v2) \<in> scIndex d"
        by (auto simp: K_def)
      with tv uniq have "h1 = h2" by blast
      with tv s k1 k2 show "k1 = k2" by simp
    qed
    have "distinct (map f xs)"
      using inj dist_xs set_xs by (simp add: distinct_map)
    then have "m = [] @ map (\<lambda>k. (f k, g k)) xs"
      unfolding m_def by (rule foldl_update_fresh) simp
    then have m_map: "m = map (\<lambda>k. (f k, g k)) xs"
      by simp
    have lam: "(\<lambda>k. (f k, g k)) = (\<lambda>(sc', h', t, v). (txoKey t v, t, v, sc, h'))"
      by (auto simp: fun_eq_iff f_def g_def)
    have 1: "m = map (\<lambda>(sc', h', t, v). (txoKey t v, t, v, sc, h'))
                  (sorted_list_of_set
                     {(sc', h', t, v). (sc', h', t, v) \<in> scIndex d \<and> sc' = sc
                        \<and> h \<le> h' \<and> h' < 0xffffffff})"
      using m_map by (simp only: lam xs_def K_tuple)
    have "map (\<lambda>(key, t, v, sc', h'). (h', t, v)) m = map snd xs"
      by (simp add: m_map g_def case_prod_unfold)
    moreover have "sorted (map snd xs)"
      using sorted_xs by (rule sorted_snd_same_fst [where a = sc]) (simp add: set_xs K_def)
    ultimately have 2: "sorted (map (\<lambda>(key, t, v, sc', h'). (h', t, v)) m)"
      by simp
    from 1 2 show ?thesis ..
  qed
  have keys': "fst ` set m =
      {txoKey t v | t v h'. (sc, h', t, v) \<in> scIndex d \<and> h \<le> h' \<and> h' < 0xffffffff}"
    using keys fK by (rule trans)
  have "(\<forall>t v h1 h2. (sc, h1, t, v) \<in> scIndex d \<and> (sc, h2, t, v) \<in> scIndex d \<longrightarrow> h1 = h2) \<longrightarrow>
            m = map (\<lambda>(sc', h', t, v). (txoKey t v, t, v, sc, h'))
                  (sorted_list_of_set
                     {(sc', h', t, v). (sc', h', t, v) \<in> scIndex d \<and> sc' = sc
                        \<and> h \<le> h' \<and> h' < 0xffffffff})
            \<and> sorted (map (\<lambda>(key, t, v, sc', h'). (h', t, v)) m)"
    using ordered by (rule impI)
  with res dist keys' entries show ?thesis
    by (intro exI [of _ m] conjI)
qed

theorem txosByScriptId_scan_witness:
  "iterErr (reliable ex_rpc) ScIndex = None \<and> finite (scIndex ex_sc_db)
   \<and> ZERO64 \<le> ''a0'' \<and> ZERO64 \<le> ''c1'' \<and> ZERO64 \<le> ''t2'' \<and> ZERO64 \<le> ''e5''
   \<and> txosByScriptId (reliable ex_rpc) ex_sc_db ''s1'' 100
       = Inr [(''c1:0'', ''c1'', 0, ''s1'', 100), (''t2:1'', ''t2'', 1, ''s1'', 100)]
   \<and> {''c1:0'', ''t2:1''} =
       {txoKey t v | t v h'. (''s1'', h', t, v) \<in> scIndex ex_sc_db \<and> 100 \<le> h' \<and> h' < 0xffffffff}
   \<and> sorted [(100::nat, ''c1'', 0::nat), (100, ''t2'', 1)]"
proof -
  have h: "iterErr (reliable ex_rpc) ScIndex = None" "finite (scIndex ex_sc_db)"
    "\<forall>(sc', h', t, v) \<in> scIndex ex_sc_db. ZERO64 \<le> t"
    by (simp_all add: reliable_def ex_sc_db_def ZERO64_def less_char_def less_eq_char_def)
  have u: "\<forall>t v h1 h2. (''s1'', h1, t, v) \<in> scIndex ex_sc_db \<and> (''s1'', h2, t, v) \<in> scIndex ex_sc_db
      \<longrightarrow> h1 = h2"
    by (auto simp: ex_sc_db_def)
  have z: "ZERO64 \<le> ''a0'' \<and> ZERO64 \<le> ''c1'' \<and> ZERO64 \<le> ''t2'' \<and> ZERO64 \<le> ''e5''"
    by (simp add: ZERO64_def less_char_def less_eq_char_def)
  from txosByScriptId_scan [OF h, of "''s1''" 100] obtain m
    where m: "txosByScriptId (reliable ex_rpc) ex_sc_db ''s1'' 100 = Inr m"
      and k: "fst ` set m =
       {txoKey t v | t v h'. (''s1'', h', t, v) \<in> scIndex ex_sc_db \<and> 100 \<le> h' \<and> h' < 0xffffffff}"
      and o: "(\<forall>t v h1 h2. (''s1'', h1, t, v) \<in> scIndex ex_sc_db \<and> (''s1'', h2, t, v) \<in> scIndex ex_sc_db
      \<longrightarrow> h1 = h2) \<longrightarrow>
        m = map (\<lambda>(sc', h', t, v). (txoKey t v, t, v, ''s1'', h'))
                  (sorted_list_of_set
                     {(sc', h', t, v). (sc', h', t, v) \<in> scIndex ex_sc_db \<and> sc' = ''s1''
                        \<and> 100 \<le> h' \<and> h' < 0xffffffff})
        \<and> sorted (map (\<lambda>(key, t, v, sc', h'). (h', t, v)) m)"
    by (elim exE conjE)
  from m ex_txos have meq: "m = [(''c1:0'', ''c1'', 0, ''s1'', 100), (''t2:1'', ''t2'', 1, ''s1'', 100)]"
    by simp
  from o u have "sorted (map (\<lambda>(key, t, v, sc', h'). (h', t, v)) m)"
    by (rule mp [THEN conjunct2])
  then have srt: "sorted [(100::nat, ''c1'', 0::nat), (100, ''t2'', 1)]"
    unfolding meq by simp
  from k have keys: "{''c1:0'', ''t2:1''} =
       {txoKey t v | t v h'. (''s1'', h', t, v) \<in> scIndex ex_sc_db \<and> 100 \<le> h' \<and> h' < 0xffffffff}"
    unfolding meq by simp
  from h(1,2) z ex_txos keys srt show ?thesis
    by (intro conjI) simp_all
qed

text \<open>
  C5 as stated fails at the height \<^verbatim>\<open>0xffffffff\<close>: the output \<open>e5:0\<close> of script \<open>s1\<close> is
  indexed at a height that is at least the minimum height 100, and it is not returned.
\<close>

theorem txosByScriptId_misses_top_height:
  "(''s1'', 0xffffffff, ''e5'', 0) \<in> scIndex ex_sc_db
   \<and> (100::nat) \<le> 0xffffffff
   \<and> txosByScriptId (reliable ex_rpc) ex_sc_db ''s1'' 100
       = Inr [(''c1:0'', ''c1'', 0, ''s1'', 100), (''t2:1'', ''t2'', 1, ''s1'', 100)]
   \<and> txoKey ''e5'' 0 \<notin> fst ` set [(''c1:0'', ''c1'', 0::nat, ''s1'', 100::nat), (''t2:1'', ''t2'', 1, ''s1'', 100)]"
  using ex_txos by (simp add: ex_sc_db_def txoKey_def decimal_small digit_def)

subsection \<open>Transactions of a script\<close>

text \<open>
  C6. \<open>transactionIdsByScriptId\<close> fails with the error of \<open>txosByScriptId\<close> when that call
  fails, and fails when a spend lookup of one of the returned outputs fails. When all
  lookups succeed it returns an object whose keys, pairwise different and all mapped to
  \<^verbatim>\<open>true\<close>, are exactly the creating transactions of the returned outputs together with
  the spending transactions of those that the spend lookup reports as spent.
\<close>

theorem transactionIdsByScriptId_union:
  "(\<forall>err. txosByScriptId e d sc h = Inl err \<longrightarrow> transactionIdsByScriptId e d sc h = Inl err)
   \<and> (\<forall>txosMap. txosByScriptId e d sc h = Inr txosMap \<longrightarrow>
        ((\<exists>x \<in> set txosMap. \<exists>err. spentFromTxo e d (snd x) = Inl err) \<longrightarrow>
           (\<exists>err. transactionIdsByScriptId e d sc h = Inl err))
        \<and> ((\<forall>x \<in> set txosMap. \<exists>r. spentFromTxo e d (snd x) = Inr r) \<longrightarrow>
             (\<exists>txIds. transactionIdsByScriptId e d sc h = Inr txIds
                \<and> distinct (map fst txIds)
                \<and> (\<forall>x \<in> set txIds. snd x)
                \<and> fst ` set txIds =
                    {fst (snd x) | x. x \<in> set txosMap}
                    \<union> {t. \<exists>x \<in> set txosMap. \<exists>vin.
                           spentFromTxo e d (snd x) = Inr (Some (t, vin))})))"
proof (intro conjI allI impI)
  fix err assume "txosByScriptId e d sc h = Inl err"
  then show "transactionIdsByScriptId e d sc h = Inl err"
    by (simp add: transactionIdsByScriptId_def)
next
  fix txosMap
  assume t: "txosByScriptId e d sc h = Inr txosMap"
    and f: "\<exists>x \<in> set txosMap. \<exists>err. spentFromTxo e d (snd x) = Inl err"
  then obtain x err where "x \<in> set txosMap" "spentFromTxo e d (snd x) = Inl err"
    by blast
  then have "Inl err \<in> set (map (\<lambda>(txoKey, txo). spentFromTxo e d txo) txosMap)"
    by (force simp: case_prod_unfold)
  then obtain err' where "parallel (map (\<lambda>(txoKey, txo). spentFromTxo e d txo) txosMap) = Inl err'"
    using parallel_Inl_iff by blast
  with t show "\<exists>err. transactionIdsByScriptId e d sc h = Inl err"
    by (simp add: transactionIdsByScriptId_def)
next
  fix txosMap
  assume t: "txosByScriptId e d sc h = Inr txosMap"
    and ok: "\<forall>x \<in> set txosMap. \<exists>r. spentFromTxo e d (snd x) = Inr r"
  define spentMap where "spentMap = map (\<lambda>x. projr (spentFromTxo e d (snd x))) txosMap"
  have tasks: "map (\<lambda>(txoKey, txo). spentFromTxo e d txo) txosMap = map Inr spentMap"
    using ok by (auto simp: spentMap_def case_prod_unfold)
  have p: "parallel (map (\<lambda>(txoKey, txo). spentFromTxo e d txo) txosMap) = Inr spentMap"
    by (simp only: tasks parallel_map_Inr)
  define txIds1 where "txIds1 = foldl (\<lambda>m p. AList.update (fst p) True m) [] (List.map_filter id spentMap)"
  define txIds2 where "txIds2 = foldl (\<lambda>m y. AList.update (fst (snd y)) True m) txIds1 txosMap"
  have res: "transactionIdsByScriptId e d sc h = Inr txIds2"
    using t p
    by (simp add: transactionIdsByScriptId_def Let_def fold_spent_eq fold_created_eq
        txIds1_def txIds2_def)
  have d1: "distinct (map fst txIds1)"
    unfolding txIds1_def by (rule foldl_update_distinct) simp
  have d2: "distinct (map fst txIds2)"
    unfolding txIds2_def using d1 by (rule foldl_update_distinct)
  have v1: "\<forall>x \<in> set txIds1. snd x"
    unfolding txIds1_def by (rule foldl_update_True) simp
  have v2: "\<forall>x \<in> set txIds2. snd x"
    unfolding txIds2_def using v1 by (rule foldl_update_True)
  have k1: "fst ` set txIds1 = {t. \<exists>vin. Some (t, vin) \<in> set spentMap}"
    unfolding txIds1_def
    by (force simp: foldl_update_keys set_map_filter_id image_iff)
  have sp: "Some (t, vin) \<in> set spentMap \<longleftrightarrow>
      (\<exists>x \<in> set txosMap. spentFromTxo e d (snd x) = Inr (Some (t, vin)))" for t vin
    using ok by (force simp: spentMap_def image_iff)
  have k2: "fst ` set txIds2 =
      {fst (snd x) | x. x \<in> set txosMap}
      \<union> {t. \<exists>x \<in> set txosMap. \<exists>vin. spentFromTxo e d (snd x) = Inr (Some (t, vin))}"
  proof -
    have "(\<lambda>y. fst (snd y)) ` set txosMap = {fst (snd x) | x. x \<in> set txosMap}"
      by blast
    moreover have "{t. \<exists>vin. Some (t, vin) \<in> set spentMap}
        = {t. \<exists>x \<in> set txosMap. \<exists>vin. spentFromTxo e d (snd x) = Inr (Some (t, vin))}"
      unfolding sp by blast
    ultimately show ?thesis
      unfolding txIds2_def foldl_update_keys k1 by blast
  qed
  from res d2 v2 k2
  show "\<exists>txIds. transactionIdsByScriptId e d sc h = Inr txIds
                \<and> distinct (map fst txIds)
                \<and> (\<forall>x \<in> set txIds. snd x)
                \<and> fst ` set txIds =
                    {fst (snd x) | x. x \<in> set txosMap}
                    \<union> {t. \<exists>x \<in> set txosMap. \<exists>vin.
                           spentFromTxo e d (snd x) = Inr (Some (t, vin))}"
    by (intro exI [of _ txIds2] conjI)
qed

theorem transactionIdsByScriptId_union_witness:
  "txosByScriptId (reliable ex_rpc) ex_sc_db ''s1'' 100
       = Inr [(''c1:0'', ''c1'', 0, ''s1'', 100), (''t2:1'', ''t2'', 1, ''s1'', 100)]
   \<and> spentFromTxo (reliable ex_rpc) ex_sc_db (''c1'', 0, ''s1'', 100) = Inr (Some (''t2'', 3))
   \<and> spentFromTxo (reliable ex_rpc) ex_sc_db (''t2'', 1, ''s1'', 100) = Inr (Some (''f9'', 0))
   \<and> transactionIdsByScriptId (reliable ex_rpc) ex_sc_db ''s1'' 100
       = Inr [(''t2'', True), (''f9'', True), (''c1'', True)]
   \<and> {''t2'', ''f9'', ''c1''} =
       {''c1'', ''t2''}
       \<union> {t. \<exists>vin. spentFromTxo (reliable ex_rpc) ex_sc_db (''c1'', 0, ''s1'', 100) = Inr (Some (t, vin))
              \<or> spentFromTxo (reliable ex_rpc) ex_sc_db (''t2'', 1, ''s1'', 100) = Inr (Some (t, vin))}"
proof -
  have s: "spentFromTxo (reliable ex_rpc) ex_sc_db (''c1'', 0, ''s1'', 100) = Inr (Some (''t2'', 3))"
    "spentFromTxo (reliable ex_rpc) ex_sc_db (''t2'', 1, ''s1'', 100) = Inr (Some (''f9'', 0))"
    by (simp_all add: spentFromTxo_def get_spentIndex_def reliable_def ex_sc_db_def empty_db_def)
  let ?m = "[(''c1:0'', ''c1'', 0::nat, ''s1'', 100::nat), (''t2:1'', ''t2'', 1, ''s1'', 100)]"
  have ok: "\<forall>x \<in> set ?m. \<exists>r. spentFromTxo (reliable ex_rpc) ex_sc_db (snd x) = Inr r"
    using s by simp
  from transactionIdsByScriptId_union [of "reliable ex_rpc" ex_sc_db "''s1''" 100]
  have "(\<forall>x \<in> set ?m. \<exists>r. spentFromTxo (reliable ex_rpc) ex_sc_db (snd x) = Inr r) \<longrightarrow>
      (\<exists>txIds. transactionIdsByScriptId (reliable ex_rpc) ex_sc_db ''s1'' 100 = Inr txIds
         \<and> distinct (map fst txIds)
         \<and> (\<forall>x \<in> set txIds. snd x)
         \<and> fst ` set txIds =
             {fst (snd x) | x. x \<in> set ?m}
             \<union> {t. \<exists>x \<in> set ?m. \<exists>vin.
                    spentFromTxo (reliable ex_rpc) ex_sc_db (snd x) = Inr (Some (t, vin))})"
    using ex_txos by blast
  with ok obtain txIds
    where r: "transactionIdsByScriptId (reliable ex_rpc) ex_sc_db ''s1'' 100 = Inr txIds"
      and k: "fst ` set txIds =
             {fst (snd x) | x. x \<in> set ?m}
             \<union> {t. \<exists>x \<in> set ?m. \<exists>vin.
                    spentFromTxo (reliable ex_rpc) ex_sc_db (snd x) = Inr (Some (t, vin))}"
    by blast
  from r ex_txids have teq: "txIds = [(''t2'', True), (''f9'', True), (''c1'', True)]"
    by simp
  have c: "{fst (snd x) | x. x \<in> set ?m} = {''c1'', ''t2''}"
    by auto
  have sp: "{t. \<exists>x \<in> set ?m. \<exists>vin.
                    spentFromTxo (reliable ex_rpc) ex_sc_db (snd x) = Inr (Some (t, vin))}
      = {t. \<exists>vin. spentFromTxo (reliable ex_rpc) ex_sc_db (''c1'', 0, ''s1'', 100) = Inr (Some (t, vin))
              \<or> spentFromTxo (reliable ex_rpc) ex_sc_db (''t2'', 1, ''s1'', 100) = Inr (Some (t, vin))}"
    by auto
  from k have u: "{''t2'', ''f9'', ''c1''} =
       {''c1'', ''t2''}
       \<union> {t. \<exists>vin. spentFromTxo (reliable ex_rpc) ex_sc_db (''c1'', 0, ''s1'', 100) = Inr (Some (t, vin))
              \<or> spentFromTxo (reliable ex_rpc) ex_sc_db (''t2'', 1, ''s1'', 100) = Inr (Some (t, vin))}"
    unfolding teq c sp by simp
  from ex_txos s ex_txids u show ?thesis
    by (intro conjI)
qed

end
